theory Spec2Isabelle
  imports Main "HOL-Library.AList"
begin

section \<open>ccenv: the state-swap engine\<close>

text \<open>
  A shallow embedding of \<^verbatim>\<open>src/ccenv.ts\<close> and \<^verbatim>\<open>src/storage.ts\<close>.
  The program drives three outside tools (git, tar and the file system). Their state is
  the record \<open>world\<close>; every function of the source becomes a function from a world to a
  result and the next world. An exception of the source is the left summand of the
  result; whatever was written before the exception stays written, as in the source.

  Scope of the model.
  \<^item> A working tree, an index and a commit are finite tables from paths to contents.
    Directories, file modes and symbolic links are left out. The ignore rules are the
    list of the paths they match. The output of \<^verbatim>\<open>git ls-files\<close> is taken as the list of
    its lines, for path names that the listing prints as they are.
  \<^item> A patch is the list of per-path changes that \<^verbatim>\<open>git diff --binary\<close> records, each
    with the content before and after; \<^verbatim>\<open>git apply\<close> is all-or-nothing and needs the
    content before to be what the target holds.
  \<^item> A JSON file is modelled by what \<^verbatim>\<open>JSON.parse\<close> makes of its text: \<open>Json v\<close> for a text
    that denotes the record \<open>v\<close>, \<open>NotJson s\<close> for a text \<open>s\<close> on which the parser throws.
    The source casts the parsed value without a check; texts that parse to a value of
    another shape are outside the model.
  \<^item> Names of environments are single path components, so \<^verbatim>\<open>.ccenv/envs/<name>\<close> is the
    entry \<open>name\<close> of the table \<open>envs\<close>. The control directory \<^verbatim>\<open>.ccenv\<close> itself exists.
  \<^item> \<^verbatim>\<open>logInternal\<close> appends diagnostics to \<^verbatim>\<open>.ccenv/internal.log\<close>, swallows its own
    failures and is never read back; it is left out. The field \<open>trace\<close> records instead
    every external command the program issues, in order.
\<close>

subsection \<open>Files, patches and the repository\<close>

type_synonym path = string
type_synonym content = string
type_synonym files = "(path \<times> content) list"

text \<open>One entry of a patch: the path, its content before and its content after
  (\<open>None\<close>: the file does not exist on that side).\<close>

type_synonym change = "path \<times> content option \<times> content option"
type_synonym patch = "change list"

record repo =
  commits :: "(string \<times> files) list"
  branches :: "(string \<times> string) list"
  head_branch :: "string option"
  head_commit :: string
  index :: files
  tree :: files
  ignored :: "path list"

definition head_files :: "repo \<Rightarrow> files" where
  "head_files r = (case map_of (commits r) (head_commit r) of Some f \<Rightarrow> f | None \<Rightarrow> [])"

definition startsWith :: "string \<Rightarrow> string \<Rightarrow> bool" where
  "startsWith s pre = (take (length pre) s = pre)"

text \<open>The components of a path, separated by \<open>/\<close>.\<close>

fun components :: "path \<Rightarrow> string list" where
  "components [] = [[]]"
| "components (c # cs) =
     (if c = CHR ''/'' then [] # components cs
      else (case components cs of [] \<Rightarrow> [[c]] | x # xs \<Rightarrow> (c # x) # xs))"

text \<open>\<^verbatim>\<open>git rev-parse HEAD\<close> and \<^verbatim>\<open>git rev-parse --abbrev-ref HEAD\<close>.\<close>

definition rev_parse_head :: "repo \<Rightarrow> string" where
  "rev_parse_head r = head_commit r"

definition rev_parse_abbrev_ref :: "repo \<Rightarrow> string" where
  "rev_parse_abbrev_ref r = (case head_branch r of Some b \<Rightarrow> b | None \<Rightarrow> ''HEAD'')"

text \<open>\<^verbatim>\<open>git ls-files --others --exclude-standard\<close>: the files of the working tree that are
  neither in the index nor ignored.\<close>

definition ls_files_others :: "repo \<Rightarrow> path list" where
  "ls_files_others r =
     filter (\<lambda>p. map_of (index r) p = None \<and> p \<notin> set (ignored r)) (remdups (map fst (tree r)))"

definition diff_between :: "path list \<Rightarrow> files \<Rightarrow> files \<Rightarrow> patch" where
  "diff_between ps a b =
     map (\<lambda>p. (p, map_of a p, map_of b p)) (filter (\<lambda>p. map_of a p \<noteq> map_of b p) (remdups ps))"

text \<open>\<^verbatim>\<open>git diff --cached --binary\<close>: the index against HEAD.\<close>

definition diff_cached :: "repo \<Rightarrow> patch" where
  "diff_cached r =
     diff_between (map fst (head_files r) @ map fst (index r)) (head_files r) (index r)"

text \<open>\<^verbatim>\<open>git diff --binary\<close>: the working tree against the index, on the paths of the index.\<close>

definition diff_tree :: "repo \<Rightarrow> patch" where
  "diff_tree r = diff_between (map fst (index r)) (index r) (tree r)"

definition applicable :: "patch \<Rightarrow> files \<Rightarrow> bool" where
  "applicable pt f = list_all (\<lambda>(p, old, new). map_of f p = old) pt"

definition write_change :: "change \<Rightarrow> files \<Rightarrow> files" where
  "write_change ch f =
     (case ch of (p, old, new) \<Rightarrow>
        (case new of None \<Rightarrow> AList.delete p f | Some c \<Rightarrow> AList.update p c f))"

definition apply_patch :: "patch \<Rightarrow> files \<Rightarrow> files option" where
  "apply_patch pt f = (if applicable pt f then Some (fold write_change pt f) else None)"

text \<open>\<^verbatim>\<open>git apply --cached\<close> touches the index only, \<^verbatim>\<open>git apply\<close> the working tree only.\<close>

definition git_apply_cached :: "patch \<Rightarrow> repo \<Rightarrow> repo option" where
  "git_apply_cached pt r = map_option (\<lambda>i. r\<lparr>index := i\<rparr>) (apply_patch pt (index r))"

definition git_apply :: "patch \<Rightarrow> repo \<Rightarrow> repo option" where
  "git_apply pt r = map_option (\<lambda>t. r\<lparr>tree := t\<rparr>) (apply_patch pt (tree r))"

text \<open>\<^verbatim>\<open>git reset --hard HEAD\<close>: the index becomes HEAD; every path of HEAD or of the old
  index is set to its HEAD content in the working tree (removed when HEAD has none);
  the other files of the working tree stay.\<close>

definition git_reset_hard :: "repo \<Rightarrow> repo" where
  "git_reset_hard r =
     r\<lparr>index := head_files r,
       tree := head_files r @
         filter (\<lambda>(p, c). map_of (index r) p = None \<and> map_of (head_files r) p = None) (tree r)\<rparr>"

text \<open>The patterns \<^verbatim>\<open>-e .ccenv/ -e .ccenv\<close> have no slash inside, so they match a
  component named \<^verbatim>\<open>.ccenv\<close> at any depth.\<close>

definition clean_excluded :: "path \<Rightarrow> bool" where
  "clean_excluded p = (''.ccenv'' \<in> set (components p))"

text \<open>\<^verbatim>\<open>git clean -fd -e .ccenv/ -e .ccenv\<close>: removes the files that are neither in the
  index nor ignored nor excluded.\<close>

definition git_clean :: "repo \<Rightarrow> repo" where
  "git_clean r =
     r\<lparr>tree := filter (\<lambda>(p, c). map_of (index r) p \<noteq> None \<or> p \<in> set (ignored r) \<or> clean_excluded p)
                 (tree r)\<rparr>"

text \<open>\<^verbatim>\<open>git checkout <target>\<close> with a branch name or a commit id. It fails on an unknown
  target, and when a path that differs between the two commits is not, in both the index
  and the working tree, as the current commit has it. On success the differing paths
  take the content of the target commit.\<close>

definition resolve_target :: "repo \<Rightarrow> string \<Rightarrow> (string option \<times> string) option" where
  "resolve_target r t =
     (case map_of (branches r) t of
        Some c \<Rightarrow> Some (Some t, c)
      | None \<Rightarrow> (case map_of (commits r) t of Some f \<Rightarrow> Some (None, t) | None \<Rightarrow> None))"

definition git_checkout :: "string \<Rightarrow> repo \<Rightarrow> repo option" where
  "git_checkout t r =
     (case resolve_target r t of
        None \<Rightarrow> None
      | Some (b, c) \<Rightarrow>
          (case map_of (commits r) c of
             None \<Rightarrow> None
           | Some new \<Rightarrow>
               (let old = head_files r;
                    pt = diff_between (map fst old @ map fst new) old new
                in if applicable pt (index r) \<and> applicable pt (tree r)
                   then Some (r\<lparr>head_branch := b, head_commit := c,
                                index := fold write_change pt (index r),
                                tree := fold write_change pt (tree r)\<rparr>)
                   else None)))"

text \<open>\<^verbatim>\<open>tar -czf\<close> over a list of paths stores each file with its content;
  \<^verbatim>\<open>tar -xzf\<close> writes every stored file, replacing a file that is there.\<close>

definition tar_create :: "path list \<Rightarrow> repo \<Rightarrow> files" where
  "tar_create ps r = List.map_filter (\<lambda>p. map_option (Pair p) (map_of (tree r) p)) ps"

definition tar_extract :: "files \<Rightarrow> repo \<Rightarrow> repo" where
  "tar_extract ar r = r\<lparr>tree := fold (\<lambda>(p, c). AList.update p c) ar (tree r)\<rparr>"

subsection \<open>The control directory\<close>

datatype 'a jtext = NotJson string | Json 'a

record EnvInfo =
  headHash :: string
  branch :: string
  info_timestamp :: int

record StateFile =
  activeEnv :: string
  hostEnv :: string
  timestamp :: int

record LockInfo =
  lock_pid :: nat
  lock_hostname :: string
  lock_timestamp :: int

text \<open>A slot \<^verbatim>\<open>.ccenv/envs/<name>\<close> with its four files, each present or not.\<close>

record slot =
  info_json :: "EnvInfo jtext option"
  staged_patch :: "patch option"
  unstaged_patch :: "patch option"
  untracked_tar :: "files option"

datatype patchfile = StagedPatch | UnstagedPatch

datatype cmd =
    LsFilesOthers
  | TarCreate string
  | DiffCached string
  | DiffTree string
  | RevParseHead
  | RevParseAbbrevRef
  | ResetHard
  | Clean
  | Checkout string
  | TarExtract string
  | ApplyCached string patchfile
  | Apply string patchfile
  | Spawn string string

datatype error =
    EnvNotFound string
  | EnvExists string
  | EnvNameRequired
  | MissingEnvName
  | MissingCommand
  | EnterTimeout
  | LockTimeout int "LockInfo jtext option"
  | CannotExit string "string option"
  | HostSnapshotNotFound string
  | CannotDeleteActive string
  | ShellError cmd

record world =
  repo :: repo
  lock_file :: "LockInfo jtext option"
  state_file :: "StateFile jtext option"
  config_file :: "string option"
  envs :: "(string \<times> slot) list"
  clock :: int
  pid :: nat
  hostname :: string
  CCENV_ACTIVE :: "string option"
  trace :: "cmd list"

type_synonym 'a result = "(error + 'a) \<times> world"

definition DEFAULT_HOST_ENV :: string where
  "DEFAULT_HOST_ENV = ''default''"

definition issue :: "cmd \<Rightarrow> world \<Rightarrow> world" where
  "issue c w = w\<lparr>trace := trace w @ [c]\<rparr>"

definition empty_slot :: slot where
  "empty_slot = \<lparr>info_json = None, staged_patch = None, unstaged_patch = None,
                  untracked_tar = None\<rparr>"

text \<open>The files of a slot; a directory that does not exist has none.\<close>

definition slot_of :: "world \<Rightarrow> string \<Rightarrow> slot" where
  "slot_of w d = (case map_of (envs w) d of Some s \<Rightarrow> s | None \<Rightarrow> empty_slot)"

definition put_slot :: "string \<Rightarrow> slot \<Rightarrow> world \<Rightarrow> world" where
  "put_slot d s w = w\<lparr>envs := AList.update d s (envs w)\<rparr>"

text \<open>\<^verbatim>\<open>fs.mkdir(dir, {recursive: true})\<close> on a slot directory.\<close>

definition mkdir_slot :: "string \<Rightarrow> world \<Rightarrow> world" where
  "mkdir_slot d w = (case map_of (envs w) d of Some s \<Rightarrow> w | None \<Rightarrow> put_slot d empty_slot w)"

definition ensureCcenvDirs :: "world \<Rightarrow> world" where
  "ensureCcenvDirs w =
     (case config_file w of Some c \<Rightarrow> w | None \<Rightarrow> w\<lparr>config_file := Some ''{}\<newline>''\<rparr>)"

definition envExists :: "world \<Rightarrow> string \<Rightarrow> bool" where
  "envExists w d = (map_of (envs w) d \<noteq> None)"

subsection \<open>Snapshot, reset and restore\<close>

definition writeInfo :: "string \<Rightarrow> world \<Rightarrow> world" where
  "writeInfo d w =
     (let w1 = issue RevParseHead w;
          h = rev_parse_head (repo w1);
          w2 = issue RevParseAbbrevRef w1;
          b = rev_parse_abbrev_ref (repo w2);
          i = \<lparr>headHash = h, branch = b, info_timestamp = clock w2\<rparr>
      in put_slot d ((slot_of w2 d)\<lparr>info_json := Some (Json i)\<rparr>) w2)"

text \<open>The statements of \<^verbatim>\<open>dumpEnv\<close> in turn: the archive of the untracked files
  (removed when there are none), the staged patch, the unstaged patch.\<close>

definition untrackedFiltered :: "repo \<Rightarrow> path list" where
  "untrackedFiltered r =
     filter (\<lambda>entry. entry \<noteq> ''.ccenv'' \<and> \<not> startsWith entry ''.ccenv/'')
       (ls_files_others r)"

definition dumpUntracked :: "string \<Rightarrow> world \<Rightarrow> world" where
  "dumpUntracked d w =
     (let w1 = issue LsFilesOthers w
      in if untrackedFiltered (repo w1) \<noteq> [] then
           (let w2 = issue (TarCreate d) w1
            in put_slot d ((slot_of w2 d)
                 \<lparr>untracked_tar := Some (tar_create (untrackedFiltered (repo w1)) (repo w2))\<rparr>) w2)
         else if untracked_tar (slot_of w1 d) \<noteq> None then
           put_slot d ((slot_of w1 d)\<lparr>untracked_tar := None\<rparr>) w1
         else w1)"

definition dumpStaged :: "string \<Rightarrow> world \<Rightarrow> world" where
  "dumpStaged d w =
     (let w1 = issue (DiffCached d) w
      in put_slot d ((slot_of w1 d)\<lparr>staged_patch := Some (diff_cached (repo w1))\<rparr>) w1)"

definition dumpUnstaged :: "string \<Rightarrow> world \<Rightarrow> world" where
  "dumpUnstaged d w =
     (let w1 = issue (DiffTree d) w
      in put_slot d ((slot_of w1 d)\<lparr>unstaged_patch := Some (diff_tree (repo w1))\<rparr>) w1)"

definition dumpEnv :: "string \<Rightarrow> world \<Rightarrow> world" where
  "dumpEnv d w =
     writeInfo d (dumpUnstaged d (dumpStaged d (dumpUntracked d (mkdir_slot d w))))"

definition cleanWorkspace :: "world \<Rightarrow> world" where
  "cleanWorkspace w =
     (let w1 = (issue ResetHard w)\<lparr>repo := git_reset_hard (repo w)\<rparr>
      in (issue Clean w1)\<lparr>repo := git_clean (repo w1)\<rparr>)"

text \<open>One shell command that may fail: the command is issued, and the world changes
  only when it succeeds.\<close>

definition shell :: "cmd \<Rightarrow> (repo \<Rightarrow> repo option) \<Rightarrow> world \<Rightarrow> unit result" where
  "shell c f w =
     (let w1 = issue c w
      in case f (repo w1) of
           None \<Rightarrow> (Inl (ShellError c), w1)
         | Some r \<Rightarrow> (Inr (), w1\<lparr>repo := r\<rparr>))"

text \<open>The first part of \<^verbatim>\<open>restoreEnv\<close>: the position in the history. Every exception
  inside it is caught by the source and logged, so it returns a world and no error.\<close>

definition restorePosition :: "string \<Rightarrow> world \<Rightarrow> world" where
  "restorePosition d w =
     (case info_json (slot_of w d) of
        None \<Rightarrow> w
      | Some (NotJson s) \<Rightarrow> w
      | Some (Json i) \<Rightarrow>
          (if branch i \<noteq> [] \<and> branch i \<noteq> ''HEAD'' then
             (case shell (Checkout (branch i)) (git_checkout (branch i)) w of
                (Inr u, w1) \<Rightarrow> w1
              | (Inl e, w1) \<Rightarrow>
                  (if headHash i \<noteq> [] then
                     snd (shell (Checkout (headHash i)) (git_checkout (headHash i)) w1)
                   else w1))
           else if headHash i \<noteq> [] then
             snd (shell (Checkout (headHash i)) (git_checkout (headHash i)) w)
           else w))"

definition fileNotEmpty :: "patch option \<Rightarrow> bool" where
  "fileNotEmpty f = (case f of None \<Rightarrow> False | Some pt \<Rightarrow> pt \<noteq> [])"

definition patch_of :: "patch option \<Rightarrow> patch" where
  "patch_of f = (case f of None \<Rightarrow> [] | Some pt \<Rightarrow> pt)"

definition restoreUnstaged :: "string \<Rightarrow> world \<Rightarrow> unit result" where
  "restoreUnstaged d w =
     (if fileNotEmpty (unstaged_patch (slot_of w d)) then
        shell (Apply d UnstagedPatch) (git_apply (patch_of (unstaged_patch (slot_of w d)))) w
      else (Inr (), w))"

definition restoreStaged :: "string \<Rightarrow> world \<Rightarrow> unit result" where
  "restoreStaged d w =
     (if fileNotEmpty (staged_patch (slot_of w d)) then
        (case shell (ApplyCached d StagedPatch)
                (git_apply_cached (patch_of (staged_patch (slot_of w d)))) w of
           (Inl e, w1) \<Rightarrow> (Inl e, w1)
         | (Inr u, w1) \<Rightarrow>
             shell (Apply d StagedPatch) (git_apply (patch_of (staged_patch (slot_of w d)))) w1)
      else (Inr (), w))"

definition restoreUntracked :: "string \<Rightarrow> world \<Rightarrow> world" where
  "restoreUntracked d w =
     (case untracked_tar (slot_of w d) of
        None \<Rightarrow> w
      | Some ar \<Rightarrow> (issue (TarExtract d) w)\<lparr>repo := tar_extract ar (repo w)\<rparr>)"

definition restoreEnv :: "string \<Rightarrow> bool \<Rightarrow> world \<Rightarrow> unit result" where
  "restoreEnv d clean w =
     (let w1 = (if clean then cleanWorkspace w else w);
          w2 = restorePosition d w1;
          w3 = restoreUntracked d w2
      in case restoreStaged d w3 of
           (Inl e, w4) \<Rightarrow> (Inl e, w4)
         | (Inr u, w4) \<Rightarrow> restoreUnstaged d w4)"


subsection \<open>Occupancy record and lock (storage.ts)\<close>

definition readState :: "world \<Rightarrow> StateFile option" where
  "readState w =
     (case state_file w of
        None \<Rightarrow> None
      | Some (NotJson s) \<Rightarrow> None
      | Some (Json st) \<Rightarrow> Some st)"

definition writeState :: "StateFile \<Rightarrow> world \<Rightarrow> world" where
  "writeState st w = w\<lparr>state_file := Some (Json st)\<rparr>"

text \<open>While a process sleeps the other processes run. Their effect on the shared disk
  is the parameter \<open>oth\<close>: \<open>oth t d\<close> is the disk they leave at time \<open>t\<close>. The sleeping
  process keeps its own fields, and its clock advances by the time slept.\<close>

type_synonym others = "int \<Rightarrow> world \<Rightarrow> world"

definition with_disk :: "world \<Rightarrow> world \<Rightarrow> world" where
  "with_disk w d =
     w\<lparr>repo := repo d, lock_file := lock_file d, state_file := state_file d,
       config_file := config_file d, envs := envs d\<rparr>"

definition sleep :: "others \<Rightarrow> int \<Rightarrow> world \<Rightarrow> world" where
  "sleep oth ms w = (with_disk w (oth (clock w + ms) w))\<lparr>clock := clock w + ms\<rparr>"

definition alone :: others where
  "alone t d = d"

text \<open>The loop of \<^verbatim>\<open>acquireLock\<close>. \<^verbatim>\<open>fs.open(lockFile, "wx")\<close> creates the file only when
  it is not there. The detail of the error is the text of the marker, \<open>None\<close> standing
  for \<^verbatim>\<open>"unknown"\<close> when it cannot be read. The source rethrows every other failure
  of \<^verbatim>\<open>open\<close> (a missing control directory, a permission); the file system of the model
  has none.\<close>

definition payload :: "world \<Rightarrow> LockInfo" where
  "payload w = \<lparr>lock_pid = pid w, lock_hostname = hostname w, lock_timestamp = clock w\<rparr>"

function acquireLock_from :: "others \<Rightarrow> int \<Rightarrow> int \<Rightarrow> world \<Rightarrow> unit result" where
  "acquireLock_from oth start timeoutMs w =
     (case lock_file w of
        None \<Rightarrow> (Inr (), w\<lparr>lock_file := Some (Json (payload w))\<rparr>)
      | Some held \<Rightarrow>
          (if clock w - start > timeoutMs then
             (Inl (LockTimeout timeoutMs (lock_file w)), w)
           else acquireLock_from oth start timeoutMs (sleep oth 100 w)))"
  by pat_completeness auto
termination
  by (relation "measure (\<lambda>(oth, start, timeoutMs, w). nat (start + timeoutMs + 1 - clock w))")
     (auto simp: sleep_def)

declare acquireLock_from.simps [simp del]

definition acquireLock :: "others \<Rightarrow> int \<Rightarrow> world \<Rightarrow> unit result" where
  "acquireLock oth timeoutMs w = acquireLock_from oth (clock w) timeoutMs w"

definition releaseLock :: "world \<Rightarrow> world" where
  "releaseLock w = w\<lparr>lock_file := None\<rparr>"

lemma acquireLock_from_clock: "clock w \<le> clock (snd (acquireLock_from oth start t w))"
proof (induction oth start t w rule: acquireLock_from.induct)
  case (1 oth start t w)
  show ?case
  proof (cases "lock_file w")
    case None
    then show ?thesis by (subst acquireLock_from.simps) simp
  next
    case (Some held)
    show ?thesis
    proof (cases "clock w - start > t")
      case True
      with Some show ?thesis by (subst acquireLock_from.simps) simp
    next
      case False
      with Some "1.IH" have "clock (sleep oth 100 w)
          \<le> clock (snd (acquireLock_from oth start t (sleep oth 100 w)))"
        by simp
      moreover have "clock w \<le> clock (sleep oth 100 w)"
        by (simp add: sleep_def)
      ultimately show ?thesis
        using Some False by (subst acquireLock_from.simps) simp
    qed
  qed
qed

lemma acquireLock_clock: "acquireLock oth t w = (r, w1) \<Longrightarrow> clock w \<le> clock w1"
  using acquireLock_from_clock [of w oth "clock w" t] by (simp add: acquireLock_def)

subsection \<open>The swap orchestrator\<close>

text \<open>The part of \<^verbatim>\<open>enterEnv\<close> after the comment "No state, free to enter".\<close>

definition enterSwap :: "string \<Rightarrow> world \<Rightarrow> bool result" where
  "enterSwap name w =
     (let w1 = mkdir_slot DEFAULT_HOST_ENV w;
          w2 = dumpEnv DEFAULT_HOST_ENV w1;
          w3 = cleanWorkspace w2
      in case restoreEnv name False w3 of
           (Inl e, w4) \<Rightarrow> (Inl e, w4)
         | (Inr u, w4) \<Rightarrow>
             (Inr True, writeState \<lparr>activeEnv = name, hostEnv = DEFAULT_HOST_ENV,
                                    timestamp = clock w4\<rparr> w4))"

text \<open>The \<^verbatim>\<open>while (true)\<close> loop of \<^verbatim>\<open>enterEnv\<close>. \<^verbatim>\<open>acquireLock\<close> is called before the
  \<^verbatim>\<open>try\<close>, so its exception skips the \<^verbatim>\<open>finally\<close>. Every way out of the \<^verbatim>\<open>try\<close> block
  runs the \<^verbatim>\<open>finally\<close>: the two \<^verbatim>\<open>return\<close>s, an exception, and the \<^verbatim>\<open>continue\<close> of the
  busy branch, which has released the lock itself before it slept.\<close>

function enterLoop :: "others \<Rightarrow> string \<Rightarrow> int \<Rightarrow> world \<Rightarrow> bool result" where
  "enterLoop oth name start w =
     (if clock w - start > 300000 then (Inl EnterTimeout, w)
      else
        (case acquireLock oth 30000 w of
           (Inl e, w1) \<Rightarrow> (Inl e, w1)
         | (Inr u, w1) \<Rightarrow>
             (case readState w1 of
                Some st \<Rightarrow>
                  (if activeEnv st = name then (Inr False, releaseLock w1)
                   else enterLoop oth name start
                          (releaseLock (sleep oth 1000 (releaseLock w1))))
              | None \<Rightarrow>
                  (case enterSwap name w1 of (r, w2) \<Rightarrow> (r, releaseLock w2)))))"
  by pat_completeness auto
termination
proof (relation "measure (\<lambda>(oth, name, start, w). nat (start + 300001 - clock w))", goal_cases)
  case 1
  show ?case by simp
next
  case (2 oth name start w x w1 u st)
  then have "clock w \<le> clock w1"
    using acquireLock_clock [of oth 30000 w "Inr u" w1] by simp
  with 2 show ?case
    by (simp add: sleep_def releaseLock_def with_disk_def)
qed

declare enterLoop.simps [simp del]

definition enterEnv :: "others \<Rightarrow> string \<Rightarrow> world \<Rightarrow> bool result" where
  "enterEnv oth name w =
     (let w1 = ensureCcenvDirs w
      in if \<not> envExists w1 name then (Inl (EnvNotFound name), w1)
         else enterLoop oth name (clock w1) w1)"

text \<open>The \<^verbatim>\<open>try\<close> block of \<^verbatim>\<open>exitEnv\<close>.\<close>

definition exitBody :: "bool \<Rightarrow> world \<Rightarrow> unit result" where
  "exitBody force w =
     (case readState w of
        None \<Rightarrow> (Inr (), w)
      | Some st \<Rightarrow>
          (if \<not> force \<and> CCENV_ACTIVE w \<noteq> Some (activeEnv st) then
             (Inl (CannotExit (activeEnv st) (CCENV_ACTIVE w)), w)
           else
             (let w1 = mkdir_slot (activeEnv st) w;
                  w2 = dumpEnv (activeEnv st) w1;
                  w3 = cleanWorkspace w2
              in if \<not> envExists w3 (hostEnv st) then
                   (Inl (HostSnapshotNotFound (hostEnv st)), w3)
                 else
                   (case restoreEnv (hostEnv st) False w3 of
                      (Inl e, w4) \<Rightarrow> (Inl e, w4)
                    | (Inr u, w4) \<Rightarrow> (Inr (), w4\<lparr>state_file := None\<rparr>)))))"

definition exitEnv :: "others \<Rightarrow> bool \<Rightarrow> world \<Rightarrow> unit result" where
  "exitEnv oth force w =
     (case acquireLock oth 30000 w of
        (Inl e, w1) \<Rightarrow> (Inl e, w1)
      | (Inr u, w1) \<Rightarrow> (case exitBody force w1 of (r, w2) \<Rightarrow> (r, releaseLock w2)))"

definition applyEnv :: "string \<Rightarrow> world \<Rightarrow> unit result" where
  "applyEnv name w =
     (let w1 = ensureCcenvDirs w
      in if \<not> envExists w1 name then (Inl (EnvNotFound name), w1)
         else restoreEnv name False w1)"

subsection \<open>The environment store\<close>

definition createEnv :: "string \<Rightarrow> bool \<Rightarrow> world \<Rightarrow> unit result" where
  "createEnv name opt_empty w =
     (let w1 = ensureCcenvDirs w
      in if envExists w1 name then (Inl (EnvExists name), w1)
         else
           (let w2 = mkdir_slot name w1
            in if opt_empty then
                 (let w3 = put_slot name ((slot_of w2 name)\<lparr>staged_patch := Some []\<rparr>) w2;
                      w4 = put_slot name ((slot_of w3 name)\<lparr>unstaged_patch := Some []\<rparr>) w3
                  in (Inr (), writeInfo name w4))
               else
                 (let w3 = put_slot name ((slot_of w2 name)\<lparr>staged_patch := Some []\<rparr>) w2;
                      w4 = put_slot name ((slot_of w3 name)\<lparr>unstaged_patch := Some []\<rparr>) w3
                  in (Inr (), writeInfo name w4))))"

text \<open>\<^verbatim>\<open>listEnvs\<close> returns the lines it prints.\<close>

definition visibleEnvs :: "world \<Rightarrow> string list" where
  "visibleEnvs w =
     filter (\<lambda>entry. entry \<noteq> DEFAULT_HOST_ENV \<and> \<not> startsWith entry ''.'')
       (remdups (map fst (envs w)))"

definition listEnvs :: "world \<Rightarrow> string list \<times> world" where
  "listEnvs w =
     (let w1 = ensureCcenvDirs w;
          active = map_option activeEnv (readState w1);
          es = visibleEnvs w1
      in if es = [] then ([''No environments found.''], w1)
         else (map (\<lambda>env. (if Some env = active then ''* '' else ''  '') @ env) es, w1))"

definition deleteEnv :: "string \<Rightarrow> world \<Rightarrow> string result" where
  "deleteEnv name w =
     (let w1 = ensureCcenvDirs w
      in if \<not> envExists w1 name then (Inl (EnvNotFound name), w1)
         else if map_option activeEnv (readState w1) = Some name then
           (Inl (CannotDeleteActive name), w1)
         else (Inr (''Deleted environment: '' @ name),
               w1\<lparr>envs := AList.delete name (envs w1)\<rparr>))"

subsection \<open>The session wrapper\<close>

definition resolveEnvName :: "string option \<Rightarrow> world \<Rightarrow> error + string" where
  "resolveEnvName explicit w =
     (case explicit of
        Some e \<Rightarrow> (if e \<noteq> [] then Inr e else
           (case CCENV_ACTIVE w of
              Some a \<Rightarrow> (if a \<noteq> [] then Inr a else Inl EnvNameRequired)
            | None \<Rightarrow> Inl EnvNameRequired))
      | None \<Rightarrow>
          (case CCENV_ACTIVE w of
             Some a \<Rightarrow> (if a \<noteq> [] then Inr a else Inl EnvNameRequired)
           | None \<Rightarrow> Inl EnvNameRequired))"

definition escapeShellArg :: "string \<Rightarrow> string" where
  "escapeShellArg arg =
     [CHR 0x27] @ concat (map (\<lambda>c. if c = CHR 0x27 then [CHR 0x27, CHR 0x5C, CHR 0x27, CHR 0x27]
                                    else [c]) arg) @ [CHR 0x27]"

fun join :: "string \<Rightarrow> string list \<Rightarrow> string" where
  "join sep [] = []"
| "join sep [x] = x"
| "join sep (x # y # ys) = x @ sep @ join sep (y # ys)"

text \<open>What the spawned command does is the parameter \<open>child\<close>: from the environment
  name it is given as \<^verbatim>\<open>CCENV_ACTIVE\<close>, the script and the world, its exit status and the
  disk and time it leaves.\<close>

type_synonym child = "string \<Rightarrow> string \<Rightarrow> world \<Rightarrow> nat \<times> world"

definition runCommand :: "child \<Rightarrow> string \<Rightarrow> string list \<Rightarrow> world \<Rightarrow> nat \<times> world" where
  "runCommand ch envName command w =
     (let script = join '' '' (map escapeShellArg command);
          w1 = issue (Spawn envName script) w
      in case ch envName script w1 of
           (code, d) \<Rightarrow> (code, (with_disk w1 d)\<lparr>clock := max (clock w1) (clock d)\<rparr>))"

text \<open>The \<^verbatim>\<open>run\<close> case of \<^verbatim>\<open>main\<close> when no signal arrives. \<open>Inr code\<close> is
  \<^verbatim>\<open>process.exit(code)\<close>; an exception \<open>Inl e\<close> reaches \<^verbatim>\<open>main().catch\<close>, which exits
  with status 1.\<close>

definition mainRun :: "others \<Rightarrow> child \<Rightarrow> string list \<Rightarrow> world \<Rightarrow> nat result" where
  "mainRun oth ch rest w =
     (let (envName, commandIndex) =
            (case rest of
               [] \<Rightarrow> (None, 0)
             | a # args \<Rightarrow>
                 (if a = ''--env'' then ((case args of [] \<Rightarrow> None | n # ns \<Rightarrow> Some n), 2)
                  else (None, 0)));
          commandArgs0 = drop commandIndex rest;
          commandArgs = (case commandArgs0 of
                           [] \<Rightarrow> []
                         | a # args \<Rightarrow> (if a = ''--'' then args else commandArgs0))
      in if commandArgs = [] then (Inl MissingCommand, w)
         else
           (case resolveEnvName envName w of
              Inl e \<Rightarrow> (Inl e, w)
            | Inr resolvedEnv \<Rightarrow>
                (case enterEnv oth resolvedEnv w of
                   (Inl e, w1) \<Rightarrow> (Inl e, w1)
                 | (Inr entered, w1) \<Rightarrow>
                     (case runCommand ch resolvedEnv commandArgs w1 of
                        (exitCode, w2) \<Rightarrow>
                          (if entered then
                             (case exitEnv oth True w2 of
                                (Inl e, w3) \<Rightarrow> (Inl e, w3)
                              | (Inr u, w3) \<Rightarrow> (Inr exitCode, w3))
                           else (Inr exitCode, w2))))))"

definition exitStatus :: "error + nat \<Rightarrow> nat" where
  "exitStatus r = (case r of Inl e \<Rightarrow> 1 | Inr code \<Rightarrow> code)"

text \<open>The handler \<^verbatim>\<open>onSignal\<close> of the \<^verbatim>\<open>run\<close> case, with the two variables it closes
  over. It returns the status \<^verbatim>\<open>process.exit\<close> is called with, or \<open>None\<close> when it returns
  without exiting.\<close>

definition onSignal :: "others \<Rightarrow> bool \<Rightarrow> bool \<Rightarrow> nat \<Rightarrow> world \<Rightarrow> nat option \<times> world" where
  "onSignal oth entered signalHandled code w =
     (if signalHandled then (None, w)
      else (Some code, (if entered then snd (exitEnv oth True w) else w)))"

definition sigint :: "others \<Rightarrow> bool \<Rightarrow> bool \<Rightarrow> world \<Rightarrow> nat option \<times> world" where
  "sigint oth entered signalHandled w = onSignal oth entered signalHandled 130 w"

definition sigterm :: "others \<Rightarrow> bool \<Rightarrow> bool \<Rightarrow> world \<Rightarrow> nat option \<times> world" where
  "sigterm oth entered signalHandled w = onSignal oth entered signalHandled 143 w"

subsection \<open>Processes that run interleaved\<close>

text \<open>
  \<^verbatim>\<open>enterEnv\<close> and \<^verbatim>\<open>exitEnv\<close> once more, now one \<^verbatim>\<open>await\<close> at a time, so that several
  processes can take turns on the same control directory. A process is a request and
  the place it has reached in the source:
  \<^item> \<open>AtAcquire\<close>: \<^verbatim>\<open>await acquireLock(LOCK_FILE)\<close>; the exclusive create succeeds when
    there is no marker, otherwise the process polls again;
  \<^item> \<open>AtReadState\<close>: \<^verbatim>\<open>await readState(STATE_FILE)\<close> and the branch on its result;
  \<^item> \<open>AtBusyRelease\<close>, \<open>AtBusySleep\<close>, \<open>AtBusyFinally\<close>: the busy branch of \<^verbatim>\<open>enterEnv\<close>,
    that is \<^verbatim>\<open>await releaseLock(LOCK_FILE)\<close>, \<^verbatim>\<open>await sleep(1000)\<close>, and the \<^verbatim>\<open>releaseLock\<close>
    of the \<^verbatim>\<open>finally\<close> block, which the \<^verbatim>\<open>continue\<close> runs before the loop starts over;
  \<^item> \<open>AtDump\<close>, \<open>AtClean\<close>, \<open>AtRestore\<close>: \<^verbatim>\<open>dumpEnv\<close>, \<^verbatim>\<open>cleanWorkspace\<close>, \<^verbatim>\<open>restoreEnv\<close>,
    each recorded in the log with the process that performed it;
  \<^item> \<open>AtWriteState\<close> (enter) and \<open>AtRemoveState\<close> (exit): the state record;
  \<^item> \<open>AtFinally\<close>: the \<^verbatim>\<open>releaseLock\<close> of the \<^verbatim>\<open>finally\<close> block on the way out;
  \<^item> \<open>AtDone\<close>: the call has returned.
  \<^verbatim>\<open>releaseLock\<close> removes the marker whoever created it. The two timeouts and the
  failures of the swap steps are left out: they only end a process early.
\<close>

datatype request = Enter string | Exit bool "string option"

datatype outcome = Swapped | Skipped | Failed

datatype pc =
    AtAcquire
  | AtReadState
  | AtBusyRelease
  | AtBusySleep
  | AtBusyFinally
  | AtDump
  | AtClean
  | AtRestore
  | AtWriteState
  | AtRemoveState
  | AtFinally outcome
  | AtDone outcome

datatype action = Snapshot | Reset | Restore

record system =
  sys_lock :: "nat option"
  sys_state :: "string option"
  sys_log :: "(nat \<times> action) list"
  procs :: "(request \<times> pc) list"

definition perform :: "nat \<Rightarrow> action \<Rightarrow> system \<Rightarrow> system" where
  "perform i a s = s\<lparr>sys_log := sys_log s @ [(i, a)]\<rparr>"

fun advance :: "nat \<Rightarrow> request \<Rightarrow> pc \<Rightarrow> system \<Rightarrow> pc \<times> system" where
  "advance i rq AtAcquire s =
     (case sys_lock s of
        None \<Rightarrow> (AtReadState, s\<lparr>sys_lock := Some i\<rparr>)
      | Some holder \<Rightarrow> (AtAcquire, s))"
| "advance i (Enter name) AtReadState s =
     (case sys_state s of
        Some active \<Rightarrow>
          (if active = name then (AtFinally Skipped, s) else (AtBusyRelease, s))
      | None \<Rightarrow> (AtDump, s))"
| "advance i (Exit force ident) AtReadState s =
     (case sys_state s of
        None \<Rightarrow> (AtFinally Skipped, s)
      | Some active \<Rightarrow>
          (if \<not> force \<and> ident \<noteq> Some active then (AtFinally Failed, s) else (AtDump, s)))"
| "advance i rq AtBusyRelease s = (AtBusySleep, s\<lparr>sys_lock := None\<rparr>)"
| "advance i rq AtBusySleep s = (AtBusyFinally, s)"
| "advance i rq AtBusyFinally s = (AtAcquire, s\<lparr>sys_lock := None\<rparr>)"
| "advance i rq AtDump s = (AtClean, perform i Snapshot s)"
| "advance i rq AtClean s = (AtRestore, perform i Reset s)"
| "advance i (Enter name) AtRestore s = (AtWriteState, perform i Restore s)"
| "advance i (Exit force ident) AtRestore s = (AtRemoveState, perform i Restore s)"
| "advance i (Enter name) AtWriteState s = (AtFinally Swapped, s\<lparr>sys_state := Some name\<rparr>)"
| "advance i (Exit force ident) AtWriteState s = (AtWriteState, s)"
| "advance i (Exit force ident) AtRemoveState s = (AtFinally Swapped, s\<lparr>sys_state := None\<rparr>)"
| "advance i (Enter name) AtRemoveState s = (AtRemoveState, s)"
| "advance i rq (AtFinally r) s = (AtDone r, s\<lparr>sys_lock := None\<rparr>)"
| "advance i rq (AtDone r) s = (AtDone r, s)"

definition step :: "nat \<Rightarrow> system \<Rightarrow> system" where
  "step i s =
     (if i < length (procs s) then
        (case procs s ! i of
           (rq, at) \<Rightarrow>
             (case advance i rq at s of
                (at', s') \<Rightarrow> s'\<lparr>procs := (procs s)[i := (rq, at')]\<rparr>))
      else s)"

text \<open>A process is in the middle of a swap from its snapshot until it has written or
  removed the state record. Mutual exclusion: at most one process is.\<close>

definition in_swap :: "pc \<Rightarrow> bool" where
  "in_swap at = (at = AtClean \<or> at = AtRestore \<or> at = AtWriteState \<or> at = AtRemoveState)"

definition mutual_exclusion :: "system \<Rightarrow> bool" where
  "mutual_exclusion s = (length (filter (\<lambda>p. in_swap (snd p)) (procs s)) \<le> 1)"

subsection \<open>The steps of a restore, as commands\<close>



text \<open>HEAD is in order: its commit exists, and it is either on a branch that points to
  that commit or detached at a commit whose id is not also the name of a branch.\<close>

definition head_resolves :: "repo \<Rightarrow> bool" where
  "head_resolves r \<longleftrightarrow>
     map_of (commits r) (head_commit r) \<noteq> None
     \<and> (case head_branch r of
          Some b \<Rightarrow> b \<noteq> [] \<and> b \<noteq> ''HEAD'' \<and> map_of (branches r) b = Some (head_commit r)
        | None \<Rightarrow> map_of (branches r) (head_commit r) = None)"

text \<open>Two worlds that differ at most in the repository and the trace.\<close>

definition unchanged_control :: "world \<Rightarrow> world \<Rightarrow> bool" where
  "unchanged_control w w' \<longleftrightarrow>
     lock_file w' = lock_file w \<and> state_file w' = state_file w
     \<and> config_file w' = config_file w \<and> envs w' = envs w \<and> clock w' = clock w
     \<and> pid w' = pid w \<and> hostname w' = hostname w \<and> CCENV_ACTIVE w' = CCENV_ACTIVE w"

subsection \<open>Example worlds\<close>

text \<open>The scenario of the integration tests: \<^verbatim>\<open>file.txt\<close> committed with content
  \<^verbatim>\<open>base\<close> and edited since, a new file staged, one untracked file, and the environment
  \<^verbatim>\<open>env-a\<close> created.\<close>

definition ex_repo :: repo where
  "ex_repo =
     \<lparr>commits = [(''c1'', [(''file.txt'', ''base'')])],
      branches = [(''main'', ''c1'')],
      head_branch = Some ''main'',
      head_commit = ''c1'',
      index = [(''file.txt'', ''base''), (''staged.txt'', ''staged'')],
      tree = [(''file.txt'', ''edited''), (''staged.txt'', ''staged''),
              (''untracked.txt'', ''untracked'')],
      ignored = []\<rparr>"

definition ex_world :: world where
  "ex_world =
     \<lparr>repo = ex_repo, lock_file = None, state_file = None, config_file = Some ''{}'',
      envs = [(''env-a'',
               \<lparr>info_json = Some (Json \<lparr>headHash = ''c1'', branch = ''main'',
                                         info_timestamp = 500\<rparr>),
                staged_patch = Some [], unstaged_patch = Some [], untracked_tar = None\<rparr>)],
      clock = 1000, pid = 42, hostname = ''host'', CCENV_ACTIVE = None, trace = []\<rparr>"

text \<open>The same tree while \<^verbatim>\<open>env-a\<close> occupies it, and that world after the host slot
  has been deleted.\<close>

definition ex_occupied :: world where
  "ex_occupied = snd (enterEnv alone ''env-a'' ex_world)"




text \<open>The fresh world with the lock held by another process, and other processes that
  release the lock at a given time.\<close>

definition ex_locked :: world where
  "ex_locked =
     ex_world\<lparr>lock_file := Some (Json \<lparr>lock_pid = 7, lock_hostname = ''other'',
                                         lock_timestamp = 900\<rparr>)\<rparr>"

definition ex_release_at :: "int \<Rightarrow> others" where
  "ex_release_at t0 t d = (if t0 \<le> t then d\<lparr>lock_file := None\<rparr> else d)"

text \<open>A child command that leaves the disk alone and exits with a given status.\<close>

definition ex_child :: "nat \<Rightarrow> child" where
  "ex_child code envName script w = (code, w)"

text \<open>Three processes on a tree that \<^verbatim>\<open>x\<close> occupies: a forced exit, \<^verbatim>\<open>enter z\<close> and
  \<^verbatim>\<open>enter y\<close>. In the schedule, \<^verbatim>\<open>enter y\<close> finds the tree busy and goes to sleep; the
  exit runs to its end; \<^verbatim>\<open>enter z\<close> takes the lock and starts its swap; then \<^verbatim>\<open>enter y\<close>
  wakes up.\<close>

definition ex_system :: system where
  "ex_system =
     \<lparr>sys_lock = None, sys_state = Some ''x'', sys_log = [],
      procs = [(Exit True None, AtAcquire), (Enter ''z'', AtAcquire), (Enter ''y'', AtAcquire)]\<rparr>"

definition ex_schedule :: "nat list" where
  "ex_schedule = [2, 2, 2,  0, 0, 0, 0, 0, 0, 0,  1, 1, 1,  2, 2, 2, 2, 2]"

text \<open>The tree after \<^verbatim>\<open>git rm --cached file.txt\<close>: the deletion of \<^verbatim>\<open>file.txt\<close> is staged and
  the file itself, unchanged, is now untracked.\<close>

definition ex_rm_cached :: world where
  "ex_rm_cached =
     ex_world\<lparr>repo := ex_repo\<lparr>index := [], tree := [(''file.txt'', ''base'')]\<rparr>\<rparr>"

text \<open>The occupied world with a second environment, and other processes that, while
  this one sleeps, free the tree and leave the lock marker of process 99.\<close>

definition ex_two :: world where
  "ex_two = snd (createEnv ''env-b'' False ex_occupied)"

definition ex_intruder :: others where
  "ex_intruder t d =
     d\<lparr>state_file := None,
       lock_file := Some (Json \<lparr>lock_pid = 99, lock_hostname = ''host'', lock_timestamp = t\<rparr>)\<rparr>"

section \<open>Basic facts\<close>

declare update_conv' [simp] delete_conv' [simp]

lemma issue_fields [simp]:
  "repo (issue c w) = repo w" "lock_file (issue c w) = lock_file w"
  "state_file (issue c w) = state_file w" "config_file (issue c w) = config_file w"
  "envs (issue c w) = envs w" "clock (issue c w) = clock w" "pid (issue c w) = pid w"
  "hostname (issue c w) = hostname w" "CCENV_ACTIVE (issue c w) = CCENV_ACTIVE w"
  "trace (issue c w) = trace w @ [c]"
  by (simp_all add: issue_def)

lemma put_slot_fields [simp]:
  "repo (put_slot d s w) = repo w" "lock_file (put_slot d s w) = lock_file w"
  "state_file (put_slot d s w) = state_file w" "config_file (put_slot d s w) = config_file w"
  "clock (put_slot d s w) = clock w" "pid (put_slot d s w) = pid w"
  "hostname (put_slot d s w) = hostname w" "CCENV_ACTIVE (put_slot d s w) = CCENV_ACTIVE w"
  "trace (put_slot d s w) = trace w"
  "envs (put_slot d s w) = AList.update d s (envs w)"
  by (simp_all add: put_slot_def)

lemma slot_of_put_slot [simp]:
  "slot_of (put_slot d s w) d' = (if d' = d then s else slot_of w d')"
  by (simp add: slot_of_def put_slot_def update_conv')

lemma envExists_put_slot [simp]:
  "envExists (put_slot d s w) d' = (d' = d \<or> envExists w d')"
  by (simp add: envExists_def put_slot_def update_conv')

lemma slot_of_issue [simp]: "slot_of (issue c w) d = slot_of w d"
  by (simp add: slot_of_def)

lemma envExists_issue [simp]: "envExists (issue c w) d = envExists w d"
  by (simp add: envExists_def)

lemma mkdir_slot_fields [simp]:
  "repo (mkdir_slot d w) = repo w" "lock_file (mkdir_slot d w) = lock_file w"
  "state_file (mkdir_slot d w) = state_file w" "config_file (mkdir_slot d w) = config_file w"
  "clock (mkdir_slot d w) = clock w" "pid (mkdir_slot d w) = pid w"
  "hostname (mkdir_slot d w) = hostname w" "CCENV_ACTIVE (mkdir_slot d w) = CCENV_ACTIVE w"
  "trace (mkdir_slot d w) = trace w"
  by (simp_all add: mkdir_slot_def split: option.split)

lemma slot_of_mkdir_slot [simp]: "slot_of (mkdir_slot d w) d' = slot_of w d'"
  by (auto simp: mkdir_slot_def slot_of_def put_slot_def empty_slot_def split: option.split)

lemma envExists_mkdir_slot [simp]:
  "envExists (mkdir_slot d w) d' = (d' = d \<or> envExists w d')"
  by (auto simp: mkdir_slot_def envExists_def put_slot_def split: option.split)

lemma ensureCcenvDirs_fields [simp]:
  "repo (ensureCcenvDirs w) = repo w" "lock_file (ensureCcenvDirs w) = lock_file w"
  "state_file (ensureCcenvDirs w) = state_file w" "envs (ensureCcenvDirs w) = envs w"
  "clock (ensureCcenvDirs w) = clock w" "pid (ensureCcenvDirs w) = pid w"
  "hostname (ensureCcenvDirs w) = hostname w"
  "CCENV_ACTIVE (ensureCcenvDirs w) = CCENV_ACTIVE w" "trace (ensureCcenvDirs w) = trace w"
  by (simp_all add: ensureCcenvDirs_def split: option.split)

lemma slot_of_ensureCcenvDirs [simp]: "slot_of (ensureCcenvDirs w) d = slot_of w d"
  by (simp add: slot_of_def)

lemma envExists_ensureCcenvDirs [simp]: "envExists (ensureCcenvDirs w) d = envExists w d"
  by (simp add: envExists_def)

lemma readState_ensureCcenvDirs [simp]: "readState (ensureCcenvDirs w) = readState w"
  by (simp add: readState_def)

lemma writeInfo_fields [simp]:
  "repo (writeInfo d w) = repo w" "lock_file (writeInfo d w) = lock_file w"
  "state_file (writeInfo d w) = state_file w" "config_file (writeInfo d w) = config_file w"
  "clock (writeInfo d w) = clock w" "pid (writeInfo d w) = pid w"
  "hostname (writeInfo d w) = hostname w" "CCENV_ACTIVE (writeInfo d w) = CCENV_ACTIVE w"
  "trace (writeInfo d w) = trace w @ [RevParseHead, RevParseAbbrevRef]"
  by (simp_all add: writeInfo_def Let_def)

lemma slot_of_writeInfo [simp]:
  "slot_of (writeInfo d w) d' =
     (if d' = d then (slot_of w d)\<lparr>info_json := Some (Json \<lparr>headHash = rev_parse_head (repo w),
         branch = rev_parse_abbrev_ref (repo w), info_timestamp = clock w\<rparr>)\<rparr> else slot_of w d')"
  by (simp add: writeInfo_def Let_def)

lemma envExists_writeInfo [simp]: "envExists (writeInfo d w) d' = (d' = d \<or> envExists w d')"
  by (simp add: writeInfo_def Let_def)


lemma dumpUntracked_fields [simp]:
  "repo (dumpUntracked d w) = repo w" "lock_file (dumpUntracked d w) = lock_file w"
  "state_file (dumpUntracked d w) = state_file w" "config_file (dumpUntracked d w) = config_file w"
  "clock (dumpUntracked d w) = clock w" "pid (dumpUntracked d w) = pid w"
  "hostname (dumpUntracked d w) = hostname w" "CCENV_ACTIVE (dumpUntracked d w) = CCENV_ACTIVE w"
  by (simp_all add: dumpUntracked_def Let_def)

lemma envExists_dumpUntracked [simp]:
  "envExists w d \<Longrightarrow> envExists (dumpUntracked d w) d' = envExists w d'"
  by (auto simp add: dumpUntracked_def Let_def)

lemma slot_of_dumpUntracked_other [simp]:
  "d' \<noteq> d \<Longrightarrow> slot_of (dumpUntracked d w) d' = slot_of w d'"
  by (simp add: dumpUntracked_def Let_def)

lemma dumpStaged_fields [simp]:
  "repo (dumpStaged d w) = repo w" "lock_file (dumpStaged d w) = lock_file w"
  "state_file (dumpStaged d w) = state_file w" "config_file (dumpStaged d w) = config_file w"
  "clock (dumpStaged d w) = clock w" "pid (dumpStaged d w) = pid w"
  "hostname (dumpStaged d w) = hostname w" "CCENV_ACTIVE (dumpStaged d w) = CCENV_ACTIVE w"
  "trace (dumpStaged d w) = trace w @ [DiffCached d]"
  by (simp_all add: dumpStaged_def Let_def)

lemma slot_of_dumpStaged [simp]:
  "slot_of (dumpStaged d w) d' =
     (if d' = d then (slot_of w d)\<lparr>staged_patch := Some (diff_cached (repo w))\<rparr>
      else slot_of w d')"
  by (simp add: dumpStaged_def Let_def)

lemma envExists_dumpStaged [simp]: "envExists (dumpStaged d w) d' = (d' = d \<or> envExists w d')"
  by (simp add: dumpStaged_def Let_def)

lemma dumpUnstaged_fields [simp]:
  "repo (dumpUnstaged d w) = repo w" "lock_file (dumpUnstaged d w) = lock_file w"
  "state_file (dumpUnstaged d w) = state_file w" "config_file (dumpUnstaged d w) = config_file w"
  "clock (dumpUnstaged d w) = clock w" "pid (dumpUnstaged d w) = pid w"
  "hostname (dumpUnstaged d w) = hostname w" "CCENV_ACTIVE (dumpUnstaged d w) = CCENV_ACTIVE w"
  "trace (dumpUnstaged d w) = trace w @ [DiffTree d]"
  by (simp_all add: dumpUnstaged_def Let_def)

lemma slot_of_dumpUnstaged [simp]:
  "slot_of (dumpUnstaged d w) d' =
     (if d' = d then (slot_of w d)\<lparr>unstaged_patch := Some (diff_tree (repo w))\<rparr>
      else slot_of w d')"
  by (simp add: dumpUnstaged_def Let_def)

lemma envExists_dumpUnstaged [simp]:
  "envExists (dumpUnstaged d w) d' = (d' = d \<or> envExists w d')"
  by (simp add: dumpUnstaged_def Let_def)

lemma dumpEnv_fields [simp]:
  "repo (dumpEnv d w) = repo w" "lock_file (dumpEnv d w) = lock_file w"
  "state_file (dumpEnv d w) = state_file w" "config_file (dumpEnv d w) = config_file w"
  "clock (dumpEnv d w) = clock w" "pid (dumpEnv d w) = pid w"
  "hostname (dumpEnv d w) = hostname w" "CCENV_ACTIVE (dumpEnv d w) = CCENV_ACTIVE w"
  by (simp_all add: dumpEnv_def)

lemma envExists_dumpEnv [simp]: "envExists (dumpEnv d w) d' = (d' = d \<or> envExists w d')"
  by (simp add: dumpEnv_def)

lemma slot_of_dumpEnv_other [simp]: "d' \<noteq> d \<Longrightarrow> slot_of (dumpEnv d w) d' = slot_of w d'"
  by (simp add: dumpEnv_def)

lemma readState_dumpEnv [simp]: "readState (dumpEnv d w) = readState w"
  by (simp add: readState_def)

lemma cleanWorkspace_fields [simp]:
  "lock_file (cleanWorkspace w) = lock_file w"
  "state_file (cleanWorkspace w) = state_file w" "config_file (cleanWorkspace w) = config_file w"
  "envs (cleanWorkspace w) = envs w"
  "clock (cleanWorkspace w) = clock w" "pid (cleanWorkspace w) = pid w"
  "hostname (cleanWorkspace w) = hostname w" "CCENV_ACTIVE (cleanWorkspace w) = CCENV_ACTIVE w"
  "trace (cleanWorkspace w) = trace w @ [ResetHard, Clean]"
  "repo (cleanWorkspace w) = git_clean (git_reset_hard (repo w))"
  by (simp_all add: cleanWorkspace_def Let_def)

lemma slot_of_cleanWorkspace [simp]: "slot_of (cleanWorkspace w) d = slot_of w d"
  by (simp add: slot_of_def)

lemma envExists_cleanWorkspace [simp]: "envExists (cleanWorkspace w) d = envExists w d"
  by (simp add: envExists_def)

lemma shell_fields [simp]:
  "lock_file (snd (shell c f w)) = lock_file w"
  "state_file (snd (shell c f w)) = state_file w" "config_file (snd (shell c f w)) = config_file w"
  "envs (snd (shell c f w)) = envs w"
  "clock (snd (shell c f w)) = clock w" "pid (snd (shell c f w)) = pid w"
  "hostname (snd (shell c f w)) = hostname w"
  "CCENV_ACTIVE (snd (shell c f w)) = CCENV_ACTIVE w"
  "trace (snd (shell c f w)) = trace w @ [c]"
  by (simp_all add: shell_def Let_def split: option.split)

lemma slot_of_shell [simp]: "slot_of (snd (shell c f w)) d = slot_of w d"
  by (simp add: slot_of_def)


lemma unchanged_control_refl [simp]: "unchanged_control w w"
  by (simp add: unchanged_control_def)

lemma unchanged_control_trans:
  "unchanged_control w w1 \<Longrightarrow> unchanged_control w1 w2 \<Longrightarrow> unchanged_control w w2"
  by (simp add: unchanged_control_def)

lemma unchanged_control_shell: "unchanged_control w (snd (shell c f w))"
  by (simp add: unchanged_control_def shell_def Let_def split: option.split)

lemma unchanged_control_cleanWorkspace: "unchanged_control w (cleanWorkspace w)"
  by (simp add: unchanged_control_def)

lemma unchanged_control_restorePosition: "unchanged_control w (restorePosition d w)"
proof (cases "info_json (slot_of w d)")
  case None
  then show ?thesis by (simp add: restorePosition_def)
next
  case (Some j)
  show ?thesis
  proof (cases j)
    case (NotJson s)
    with Some show ?thesis by (simp add: restorePosition_def)
  next
    case (Json i)
    have a: "unchanged_control w (snd (shell c f w))" for c f
      by (rule unchanged_control_shell)
    have b: "unchanged_control w (snd (shell c' f' (snd (shell c f w))))" for c f c' f'
      by (rule unchanged_control_trans [OF unchanged_control_shell unchanged_control_shell])
    show ?thesis
      using Some Json a b
      by (auto simp: restorePosition_def split: prod.split sum.split)
         (metis snd_conv)+
  qed
qed

lemma unchanged_control_restoreUntracked: "unchanged_control w (restoreUntracked d w)"
  by (simp add: unchanged_control_def restoreUntracked_def split: option.split)

lemma unchanged_control_restoreStaged: "unchanged_control w (snd (restoreStaged d w))"
proof -
  have b: "unchanged_control w (snd (shell c' f' (snd (shell c f w))))" for c f c' f'
    by (rule unchanged_control_trans [OF unchanged_control_shell unchanged_control_shell])
  show ?thesis
    using b unchanged_control_shell
    by (auto simp: restoreStaged_def split: prod.split sum.split) (metis snd_conv)+
qed

lemma unchanged_control_restoreUnstaged: "unchanged_control w (snd (restoreUnstaged d w))"
  by (simp add: restoreUnstaged_def unchanged_control_shell)

lemma unchanged_control_restoreEnv: "unchanged_control w (snd (restoreEnv d c w))"
proof -
  let ?w1 = "if c then cleanWorkspace w else w"
  let ?w2 = "restorePosition d ?w1"
  let ?w3 = "restoreUntracked d ?w2"
  have 1: "unchanged_control w ?w1" by (simp add: unchanged_control_cleanWorkspace)
  have 3: "unchanged_control w ?w3"
    by (rule unchanged_control_trans [OF unchanged_control_trans
          [OF 1 unchanged_control_restorePosition] unchanged_control_restoreUntracked])
  have 4: "unchanged_control w (snd (restoreStaged d ?w3))"
    by (rule unchanged_control_trans [OF 3 unchanged_control_restoreStaged])
  have 5: "unchanged_control w (snd (restoreUnstaged d (snd (restoreStaged d ?w3))))"
    by (rule unchanged_control_trans [OF 4 unchanged_control_restoreUnstaged])
  show ?thesis
    using 4 5 by (auto simp: restoreEnv_def Let_def split: prod.split sum.split)
qed

lemma restoreEnv_fields [simp]:
  "lock_file (snd (restoreEnv d c w)) = lock_file w"
  "state_file (snd (restoreEnv d c w)) = state_file w"
  "config_file (snd (restoreEnv d c w)) = config_file w"
  "envs (snd (restoreEnv d c w)) = envs w"
  "clock (snd (restoreEnv d c w)) = clock w" "pid (snd (restoreEnv d c w)) = pid w"
  "hostname (snd (restoreEnv d c w)) = hostname w"
  "CCENV_ACTIVE (snd (restoreEnv d c w)) = CCENV_ACTIVE w"
  using unchanged_control_restoreEnv [of w d c] by (simp_all add: unchanged_control_def)

lemma acquireLock_free:
  "lock_file w = None \<Longrightarrow>
     acquireLock oth t w = (Inr (), w\<lparr>lock_file := Some (Json (payload w))\<rparr>)"
  by (simp add: acquireLock_def acquireLock_from.simps)

lemma acquireLock_held_result:
  "lock_file w \<noteq> None \<Longrightarrow> clock w - start > t \<Longrightarrow>
     acquireLock_from oth start t w = (Inl (LockTimeout t (lock_file w)), w)"
  by (subst acquireLock_from.simps) auto

lemma releaseLock_locked: "lock_file w = None \<Longrightarrow> releaseLock (w\<lparr>lock_file := x\<rparr>) = w"
  by (cases w) (simp add: releaseLock_def)

lemma readState_lock [simp]: "readState (w\<lparr>lock_file := x\<rparr>) = readState w"
  by (simp add: readState_def)

lemma envExists_lock [simp]: "envExists (w\<lparr>lock_file := x\<rparr>) d = envExists w d"
  by (simp add: envExists_def)

lemma slot_of_lock [simp]: "slot_of (w\<lparr>lock_file := x\<rparr>) d = slot_of w d"
  by (simp add: slot_of_def)

lemma with_disk_self [simp]: "with_disk w w = w"
  by (cases w) (simp add: with_disk_def)

lemma sleep_alone: "sleep alone ms w = w\<lparr>clock := clock w + ms\<rparr>"
  by (simp add: sleep_def alone_def)

lemma sleep_local [simp]:
  "pid (sleep oth ms w) = pid w" "hostname (sleep oth ms w) = hostname w"
  "CCENV_ACTIVE (sleep oth ms w) = CCENV_ACTIVE w" "trace (sleep oth ms w) = trace w"
  "clock (sleep oth ms w) = clock w + ms"
  by (simp_all add: sleep_def with_disk_def)

lemma acquireLock_from_retry:
  "lock_file w \<noteq> None \<Longrightarrow> \<not> clock w - start > t \<Longrightarrow>
     acquireLock_from oth start t w = acquireLock_from oth start t (sleep oth 100 w)"
  by (subst acquireLock_from.simps) auto

lemma acquireLock_from_outcome:
  "(fst (acquireLock_from oth start t w) = Inr () \<longrightarrow>
      lock_file (snd (acquireLock_from oth start t w)) =
        Some (Json \<lparr>lock_pid = pid w, lock_hostname = hostname w,
                     lock_timestamp = clock (snd (acquireLock_from oth start t w))\<rparr>))
   \<and> (\<forall>e. fst (acquireLock_from oth start t w) = Inl e \<longrightarrow>
        (\<exists>h. e = LockTimeout t (Some h)
             \<and> lock_file (snd (acquireLock_from oth start t w)) = Some h)
        \<and> clock (snd (acquireLock_from oth start t w)) - start > t)
   \<and> pid (snd (acquireLock_from oth start t w)) = pid w
   \<and> hostname (snd (acquireLock_from oth start t w)) = hostname w
   \<and> trace (snd (acquireLock_from oth start t w)) = trace w"
proof (induction oth start t w rule: acquireLock_from.induct)
  case (1 oth start t w)
  show ?case
  proof (cases "lock_file w")
    case None
    then show ?thesis by (subst (1 2 3 4 5 6 7 8 9) acquireLock_from.simps) (simp add: payload_def)
  next
    case (Some held)
    show ?thesis
    proof (cases "clock w - start > t")
      case True
      have "acquireLock_from oth start t w = (Inl (LockTimeout t (Some held)), w)"
        using Some True acquireLock_held_result [of w t start oth] by simp
      with Some True show ?thesis by simp
    next
      case False
      have eq: "acquireLock_from oth start t w = acquireLock_from oth start t (sleep oth 100 w)"
        using Some False by (simp add: acquireLock_from_retry)
      show ?thesis
        using "1.IH" [OF Some False] unfolding eq by simp
    qed
  qed
qed

lemma acquireLock_from_alone:
  "lock_file w = Some h \<Longrightarrow> \<not> clock w - start > t \<Longrightarrow>
     acquireLock_from alone start t w =
       (Inl (LockTimeout t (Some h)),
        w\<lparr>clock := clock w + 100 * ((start + t - clock w) div 100 + 1)\<rparr>)"
proof (induction alone start t w rule: acquireLock_from.induct)
  case (1 start t w)
  let ?w' = "sleep alone 100 w"
  have eq: "acquireLock_from alone start t w = acquireLock_from alone start t ?w'"
    using "1.prems" by (simp add: acquireLock_from_retry)
  have lk: "lock_file ?w' = Some h" using "1.prems"(1) by (simp add: sleep_alone)
  show ?case
  proof (cases "clock ?w' - start > t")
    case True
    then have "(start + t - clock w) div 100 = 0"
      using "1.prems"(2) by (simp add: sleep_alone)
    moreover have "acquireLock_from alone start t ?w' = (Inl (LockTimeout t (Some h)), ?w')"
      using True lk acquireLock_held_result [of ?w' t start alone] by simp
    ultimately show ?thesis
      unfolding eq by (simp add: sleep_alone)
  next
    case False
    have d: "(start + t - (clock w + 100)) div 100 = (start + t - clock w) div 100 - 1"
      using div_mult_self3 [of 100 "-1" "start + t - clock w"] by (simp add: algebra_simps)
    have "acquireLock_from alone start t ?w' =
       (Inl (LockTimeout t (Some h)),
        ?w'\<lparr>clock := clock ?w' + 100 * ((start + t - clock ?w') div 100 + 1)\<rparr>)"
      using "1.prems" "1.hyps" [OF _ _ lk False] by simp
    then show ?thesis
      unfolding eq by (simp add: sleep_alone d)
  qed
qed


lemma unchanged_control_slot_of: "unchanged_control w w' \<Longrightarrow> slot_of w' d = slot_of w d"
  by (simp add: unchanged_control_def slot_of_def)

lemma shell_repo:
  "repo (snd (shell c f w)) = (case f (repo w) of None \<Rightarrow> repo w | Some r \<Rightarrow> r)"
  by (simp add: shell_def Let_def split: option.split)

lemma shell_fst: "fst (shell c f w) = (case f (repo w) of None \<Rightarrow> Inl (ShellError c) | Some r \<Rightarrow> Inr ())"
  by (simp add: shell_def Let_def split: option.split)





lemma mkdir_slot_idem [simp]: "mkdir_slot d (mkdir_slot d w) = mkdir_slot d w"
  by (simp add: mkdir_slot_def put_slot_def split: option.split)

lemma dumpEnv_mkdir_slot [simp]: "dumpEnv d (mkdir_slot d w) = dumpEnv d w"
  by (simp add: dumpEnv_def)




lemma mainRun_env:
  assumes "name \<noteq> []" and "command \<noteq> []" and "hd command \<noteq> ''--''"
  shows "mainRun oth ch (''--env'' # name # command) w =
     (case enterEnv oth name w of
        (Inl e, w1) \<Rightarrow> (Inl e, w1)
      | (Inr entered, w1) \<Rightarrow>
          (case runCommand ch name command w1 of
             (exitCode, w2) \<Rightarrow>
               (if entered then
                  (case exitEnv oth True w2 of
                     (Inl e, w3) \<Rightarrow> (Inl e, w3)
                   | (Inr u, w3) \<Rightarrow> (Inr exitCode, w3))
                else (Inr exitCode, w2))))"
proof -
  obtain c cs where c: "command = c # cs" using assms(2) by (cases command) auto
  then have "c \<noteq> ''--''" using assms(3) by simp
  then show ?thesis
    using assms(1) unfolding c by (simp add: mainRun_def resolveEnvName_def)
qed

section \<open>The environment store\<close>



text \<open>
  Claim C10. \<^verbatim>\<open>delete(name)\<close> fails exactly when the slot of \<open>name\<close> does not exist or
  \<open>name\<close> is the environment recorded as occupying the tree; when it succeeds the slot is
  gone and the other slots are as before. The host slot \<^verbatim>\<open>default\<close> has no protection:
  whenever it exists and is not the occupant it is deleted. \<^verbatim>\<open>list\<close> never shows it.
\<close>

theorem deleteEnv_spec:
  "(isl (fst (deleteEnv name w)) \<longleftrightarrow>
      (\<not> envExists w name \<or> map_option activeEnv (readState w) = Some name))
   \<and> (\<not> isl (fst (deleteEnv name w)) \<longrightarrow>
        \<not> envExists (snd (deleteEnv name w)) name
        \<and> (\<forall>d. d \<noteq> name \<longrightarrow> slot_of (snd (deleteEnv name w)) d = slot_of w d))
   \<and> (envExists w DEFAULT_HOST_ENV
        \<and> map_option activeEnv (readState w) \<noteq> Some DEFAULT_HOST_ENV \<longrightarrow>
        fst (deleteEnv DEFAULT_HOST_ENV w) = Inr ''Deleted environment: default''
        \<and> \<not> envExists (snd (deleteEnv DEFAULT_HOST_ENV w)) DEFAULT_HOST_ENV)
   \<and> DEFAULT_HOST_ENV \<notin> set (visibleEnvs w)
   \<and> (\<forall>l \<in> set (fst (listEnvs w)). l \<noteq> ''* default'' \<and> l \<noteq> ''  default'')"
proof -
  have a: "isl (fst (deleteEnv name w)) \<longleftrightarrow>
      (\<not> envExists w name \<or> map_option activeEnv (readState w) = Some name)" for name
    by (simp add: deleteEnv_def Let_def)
  have b: "\<not> isl (fst (deleteEnv name w)) \<longrightarrow>
        \<not> envExists (snd (deleteEnv name w)) name
        \<and> (\<forall>d. d \<noteq> name \<longrightarrow> slot_of (snd (deleteEnv name w)) d = slot_of w d)" for name
    by (simp add: deleteEnv_def Let_def envExists_def slot_of_def)
  have c: "envExists w DEFAULT_HOST_ENV
        \<and> map_option activeEnv (readState w) \<noteq> Some DEFAULT_HOST_ENV \<longrightarrow>
        fst (deleteEnv DEFAULT_HOST_ENV w) = Inr ''Deleted environment: default''
        \<and> \<not> envExists (snd (deleteEnv DEFAULT_HOST_ENV w)) DEFAULT_HOST_ENV"
    using a [of DEFAULT_HOST_ENV] b [of DEFAULT_HOST_ENV]
    by (simp add: deleteEnv_def Let_def) (simp add: DEFAULT_HOST_ENV_def)
  have d: "DEFAULT_HOST_ENV \<notin> set (visibleEnvs w)" for w
    by (simp add: visibleEnvs_def)
  have e: "\<forall>l \<in> set (fst (listEnvs w)). l \<noteq> ''* default'' \<and> l \<noteq> ''  default''"
    using d [of "ensureCcenvDirs w"]
    by (auto simp: listEnvs_def Let_def DEFAULT_HOST_ENV_def)
  from a b c d e show ?thesis by blast
qed

theorem deleteEnv_spec_witness:
  "envExists ex_occupied DEFAULT_HOST_ENV
   \<and> map_option activeEnv (readState ex_occupied) = Some ''env-a''
   \<and> isl (fst (deleteEnv ''env-a'' ex_occupied))
   \<and> fst (deleteEnv DEFAULT_HOST_ENV ex_occupied) = Inr ''Deleted environment: default''
   \<and> \<not> envExists (snd (deleteEnv DEFAULT_HOST_ENV ex_occupied)) DEFAULT_HOST_ENV
   \<and> slot_of (snd (deleteEnv DEFAULT_HOST_ENV ex_occupied)) ''env-a'' = slot_of ex_occupied ''env-a''
   \<and> fst (listEnvs ex_occupied) = [''* env-a'']"
proof -
  have a: "envExists ex_occupied DEFAULT_HOST_ENV" by code_simp
  have b: "map_option activeEnv (readState ex_occupied) = Some ''env-a''" by code_simp
  have c: "fst (listEnvs ex_occupied) = [''* env-a'']" by code_simp
  have d: "envExists ex_occupied ''env-a''" by code_simp
  have e: "''env-a'' \<noteq> DEFAULT_HOST_ENV" by (simp add: DEFAULT_HOST_ENV_def)
  have f: "map_option activeEnv (readState ex_occupied) \<noteq> Some DEFAULT_HOST_ENV"
    using b e by auto
  have g: "isl (fst (deleteEnv ''env-a'' ex_occupied))"
    using deleteEnv_spec [of "''env-a''" ex_occupied] b by blast
  have h: "fst (deleteEnv DEFAULT_HOST_ENV ex_occupied) = Inr ''Deleted environment: default''
     \<and> \<not> envExists (snd (deleteEnv DEFAULT_HOST_ENV ex_occupied)) DEFAULT_HOST_ENV"
    using deleteEnv_spec [of DEFAULT_HOST_ENV ex_occupied] a f by blast
  then have "\<not> isl (fst (deleteEnv DEFAULT_HOST_ENV ex_occupied))" by simp
  then have i: "slot_of (snd (deleteEnv DEFAULT_HOST_ENV ex_occupied)) ''env-a'' =
      slot_of ex_occupied ''env-a''"
    using deleteEnv_spec [of DEFAULT_HOST_ENV ex_occupied] e by blast
  from a b c g h i show ?thesis by blast
qed


section \<open>Restore\<close>



section \<open>The swap orchestrator\<close>

text \<open>
  Claim C4. When the state record names \<open>name\<close> as the occupant, its slot exists and the
  lock is free, \<^verbatim>\<open>enter(name)\<close> returns \<^verbatim>\<open>false\<close> (no swap took place) and leaves the
  world as it was, but for the configuration file that \<^verbatim>\<open>ensureCcenvDirs\<close> creates when
  it is missing: the repository, the state record and the slots are unchanged, no
  command is issued, the lock is free again, and the clock has not moved, whatever the
  other processes do, since the call never sleeps.
\<close>

theorem enterEnv_already_active:
  assumes "readState w = Some st" and "activeEnv st = name"
    and "envExists w name" and "lock_file w = None"
  shows "enterEnv oth name w = (Inr False, ensureCcenvDirs w)
    \<and> repo (snd (enterEnv oth name w)) = repo w
    \<and> state_file (snd (enterEnv oth name w)) = state_file w
    \<and> envs (snd (enterEnv oth name w)) = envs w
    \<and> lock_file (snd (enterEnv oth name w)) = None
    \<and> trace (snd (enterEnv oth name w)) = trace w
    \<and> clock (snd (enterEnv oth name w)) = clock w"
proof -
  let ?w1 = "ensureCcenvDirs w"
  have free: "lock_file ?w1 = None" using assms(4) by simp
  have "enterLoop oth name (clock ?w1) ?w1 = (Inr False, ?w1)"
    using assms free
    by (subst enterLoop.simps) (simp add: acquireLock_free releaseLock_locked)
  then have "enterEnv oth name w = (Inr False, ?w1)"
    using assms(3) by (simp add: enterEnv_def Let_def)
  then show ?thesis using assms(4) by simp
qed


theorem enterEnv_already_active_witness:
  "enterEnv alone ''env-a'' ex_occupied = (Inr False, ensureCcenvDirs ex_occupied)
   \<and> trace (snd (enterEnv alone ''env-a'' ex_occupied)) = trace ex_occupied
   \<and> state_file (snd (enterEnv alone ''env-a'' ex_occupied)) = state_file ex_occupied"
proof -
  have a: "readState ex_occupied =
      Some \<lparr>activeEnv = ''env-a'', hostEnv = ''default'', timestamp = 1000\<rparr>"
    by code_simp
  have b: "envExists ex_occupied ''env-a''" by code_simp
  have c: "lock_file ex_occupied = None" by code_simp
  show ?thesis
    using enterEnv_already_active [OF a _ b c, of alone] by simp
qed









section \<open>The lock\<close>

text \<open>
  Claim C6. \<^verbatim>\<open>acquireLock\<close> creates the marker only when there is none: with no marker
  it succeeds at once and the marker holds the caller's process id, host name and time.
  With a marker present and the deadline not passed it sleeps 100 ms and tries again;
  with a marker present and the deadline passed it fails with the timeout error that
  carries the text of the marker, and leaves the marker alone. So every failure is a
  timeout that reports the marker then present, after more than the timeout has elapsed,
  and every success leaves the caller's marker. When nobody releases the lock the call
  fails after \<open>100 * (t div 100 + 1)\<close> ms. \<^verbatim>\<open>releaseLock\<close> deletes the marker, returns no
  error, and changes nothing when there is no marker.
\<close>

theorem acquireLock_spec:
  "(lock_file w = None \<longrightarrow>
      acquireLock oth t w = (Inr (), w\<lparr>lock_file := Some (Json (payload w))\<rparr>))
   \<and> (lock_file w \<noteq> None \<and> \<not> clock w - start > t \<longrightarrow>
        acquireLock_from oth start t w = acquireLock_from oth start t (sleep oth 100 w))
   \<and> (lock_file w \<noteq> None \<and> clock w - start > t \<longrightarrow>
        acquireLock_from oth start t w = (Inl (LockTimeout t (lock_file w)), w))
   \<and> (\<forall>e. fst (acquireLock oth t w) = Inl e \<longrightarrow>
        (\<exists>h. e = LockTimeout t (Some h) \<and> lock_file (snd (acquireLock oth t w)) = Some h)
        \<and> clock (snd (acquireLock oth t w)) - clock w > t)
   \<and> (fst (acquireLock oth t w) = Inr () \<longrightarrow>
        lock_file (snd (acquireLock oth t w)) =
          Some (Json \<lparr>lock_pid = pid w, lock_hostname = hostname w,
                       lock_timestamp = clock (snd (acquireLock oth t w))\<rparr>))
   \<and> (\<forall>h. lock_file w = Some h \<and> 0 \<le> t \<longrightarrow>
        acquireLock alone t w =
          (Inl (LockTimeout t (Some h)), w\<lparr>clock := clock w + 100 * (t div 100 + 1)\<rparr>))
   \<and> releaseLock w = w\<lparr>lock_file := None\<rparr>
   \<and> (lock_file w = None \<longrightarrow> releaseLock w = w)"
proof -
  have 1: "lock_file w = None \<longrightarrow>
      acquireLock oth t w = (Inr (), w\<lparr>lock_file := Some (Json (payload w))\<rparr>)"
    by (simp add: acquireLock_free)
  have 2: "lock_file w \<noteq> None \<and> \<not> clock w - start > t \<longrightarrow>
        acquireLock_from oth start t w = acquireLock_from oth start t (sleep oth 100 w)"
    using acquireLock_from_retry by blast
  have 3: "lock_file w \<noteq> None \<and> clock w - start > t \<longrightarrow>
        acquireLock_from oth start t w = (Inl (LockTimeout t (lock_file w)), w)"
    using acquireLock_held_result by blast
  have 4: "\<forall>e. fst (acquireLock oth t w) = Inl e \<longrightarrow>
        (\<exists>h. e = LockTimeout t (Some h) \<and> lock_file (snd (acquireLock oth t w)) = Some h)
        \<and> clock (snd (acquireLock oth t w)) - clock w > t"
    using acquireLock_from_outcome [where oth = oth and start = "clock w" and t = t and w = w]
    by (simp add: acquireLock_def)
  have 5: "fst (acquireLock oth t w) = Inr () \<longrightarrow>
        lock_file (snd (acquireLock oth t w)) =
          Some (Json \<lparr>lock_pid = pid w, lock_hostname = hostname w,
                       lock_timestamp = clock (snd (acquireLock oth t w))\<rparr>)"
    using acquireLock_from_outcome [where oth = oth and start = "clock w" and t = t and w = w]
    by (simp add: acquireLock_def)
  have 6: "\<forall>h. lock_file w = Some h \<and> 0 \<le> t \<longrightarrow>
        acquireLock alone t w =
          (Inl (LockTimeout t (Some h)), w\<lparr>clock := clock w + 100 * (t div 100 + 1)\<rparr>)"
    using acquireLock_from_alone [where w = w and start = "clock w" and t = t]
    by (simp add: acquireLock_def)
  have 7: "releaseLock w = w\<lparr>lock_file := None\<rparr>" by (simp add: releaseLock_def)
  have 8: "lock_file w = None \<longrightarrow> releaseLock w = w"
    using releaseLock_locked [of w None] by (simp add: releaseLock_def)
  from 1 2 3 4 5 6 7 8 show ?thesis by blast
qed


theorem acquireLock_spec_witness:
  "acquireLock alone 30000 ex_world =
     (Inr (), ex_world\<lparr>lock_file := Some (Json (payload ex_world))\<rparr>)
   \<and> acquireLock alone 30000 ex_locked =
       (Inl (LockTimeout 30000 (Some (Json \<lparr>lock_pid = 7, lock_hostname = ''other'',
          lock_timestamp = 900\<rparr>))), ex_locked\<lparr>clock := 31100\<rparr>)
   \<and> fst (acquireLock (ex_release_at 1200) 30000 ex_locked) = Inr ()
   \<and> lock_file (snd (acquireLock (ex_release_at 1200) 30000 ex_locked)) =
       Some (Json \<lparr>lock_pid = 42, lock_hostname = ''host'', lock_timestamp = 1200\<rparr>)
   \<and> releaseLock ex_world = ex_world"
proof -
  have a: "lock_file ex_world = None" by code_simp
  have b: "lock_file ex_locked =
     Some (Json \<lparr>lock_pid = 7, lock_hostname = ''other'', lock_timestamp = 900\<rparr>)"
    by code_simp
  have c: "fst (acquireLock (ex_release_at 1200) 30000 ex_locked) = Inr ()" by code_simp
  have d: "clock (snd (acquireLock (ex_release_at 1200) 30000 ex_locked)) = 1200"
    by code_simp
  have e: "pid ex_locked = 42" "hostname ex_locked = ''host''" "clock ex_locked = 1000"
    by code_simp+
  have 1: "acquireLock alone 30000 ex_world =
     (Inr (), ex_world\<lparr>lock_file := Some (Json (payload ex_world))\<rparr>)"
    using acquireLock_spec [where w = ex_world and oth = alone and t = 30000] a by blast
  have 2: "acquireLock alone 30000 ex_locked =
       (Inl (LockTimeout 30000 (Some (Json \<lparr>lock_pid = 7, lock_hostname = ''other'',
          lock_timestamp = 900\<rparr>))), ex_locked\<lparr>clock := 31100\<rparr>)"
    using acquireLock_spec [where w = ex_locked and oth = alone and t = 30000] b e by simp
  have 3: "lock_file (snd (acquireLock (ex_release_at 1200) 30000 ex_locked)) =
       Some (Json \<lparr>lock_pid = 42, lock_hostname = ''host'', lock_timestamp = 1200\<rparr>)"
    using acquireLock_spec [where w = ex_locked and oth = "ex_release_at 1200" and t = 30000]
      c d e by simp
  have 4: "releaseLock ex_world = ex_world"
    using acquireLock_spec [where w = ex_world and oth = alone and t = 30000] a by blast
  from 1 2 c 3 4 show ?thesis by blast
qed

section \<open>The session wrapper\<close>

text \<open>
  Claim C5, as amended. For \<^verbatim>\<open>run --env name command\<close>: when \<^verbatim>\<open>enter\<close> throws, the error
  is the outcome and the child is not started. When \<^verbatim>\<open>enter\<close> returns \<^verbatim>\<open>false\<close> (the
  environment was occupying the tree already), the child runs and no exit is performed:
  the outcome is the child's status and the world is the one the child left. When
  \<^verbatim>\<open>enter\<close> returns \<^verbatim>\<open>true\<close>, the child runs and, whatever its status, \<^verbatim>\<open>exit\<close> with
  \<^verbatim>\<open>force\<close> runs on the world it left; the outcome is the child's status when that exit
  succeeds and the error of the exit otherwise. An error makes the process status 1.
  The signal handler, when it runs first, performs the forced exit if the session had
  swapped in and exits with 130 for SIGINT and 143 for SIGTERM.
\<close>

theorem mainRun_cleanup:
  assumes "name \<noteq> []" and "command \<noteq> []" and "hd command \<noteq> ''--''"
  shows "(\<forall>e w1. enterEnv oth name w = (Inl e, w1) \<longrightarrow>
            mainRun oth ch (''--env'' # name # command) w = (Inl e, w1))
    \<and> (\<forall>w1 code w2. enterEnv oth name w = (Inr False, w1)
            \<and> runCommand ch name command w1 = (code, w2) \<longrightarrow>
            mainRun oth ch (''--env'' # name # command) w = (Inr code, w2))
    \<and> (\<forall>w1 code w2. enterEnv oth name w = (Inr True, w1)
            \<and> runCommand ch name command w1 = (code, w2) \<longrightarrow>
            snd (mainRun oth ch (''--env'' # name # command) w) = snd (exitEnv oth True w2)
            \<and> fst (mainRun oth ch (''--env'' # name # command) w) =
                (case fst (exitEnv oth True w2) of Inl e \<Rightarrow> Inl e | Inr u \<Rightarrow> Inr code))
    \<and> (\<forall>code. exitStatus (Inr code) = code) \<and> (\<forall>e. exitStatus (Inl e) = 1)
    \<and> sigint oth entered False w' =
        (Some 130, if entered then snd (exitEnv oth True w') else w')
    \<and> sigterm oth entered False w' =
        (Some 143, if entered then snd (exitEnv oth True w') else w')"
proof -
  note m = mainRun_env [OF assms, of oth ch w]
  have a: "\<forall>e w1. enterEnv oth name w = (Inl e, w1) \<longrightarrow>
            mainRun oth ch (''--env'' # name # command) w = (Inl e, w1)"
    by (simp add: m)
  have b: "\<forall>w1 code w2. enterEnv oth name w = (Inr False, w1)
            \<and> runCommand ch name command w1 = (code, w2) \<longrightarrow>
            mainRun oth ch (''--env'' # name # command) w = (Inr code, w2)"
    by (simp add: m)
  have c: "\<forall>w1 code w2. enterEnv oth name w = (Inr True, w1)
            \<and> runCommand ch name command w1 = (code, w2) \<longrightarrow>
            snd (mainRun oth ch (''--env'' # name # command) w) = snd (exitEnv oth True w2)
            \<and> fst (mainRun oth ch (''--env'' # name # command) w) =
                (case fst (exitEnv oth True w2) of Inl e \<Rightarrow> Inl e | Inr u \<Rightarrow> Inr code)"
    by (auto simp: m split: prod.split sum.split)
  have d: "(\<forall>code. exitStatus (Inr code) = code) \<and> (\<forall>e. exitStatus (Inl e) = 1)"
    by (simp add: exitStatus_def)
  have e: "sigint oth entered False w' =
        (Some 130, if entered then snd (exitEnv oth True w') else w')
    \<and> sigterm oth entered False w' =
        (Some 143, if entered then snd (exitEnv oth True w') else w')"
    by (simp add: sigint_def sigterm_def onSignal_def)
  from a b c d e show ?thesis by blast
qed

theorem mainRun_cleanup_witness:
  "fst (mainRun alone (ex_child 1) [''--env'', ''env-a'', ''false''] ex_world) = Inr 1
   \<and> readState (snd (mainRun alone (ex_child 1) [''--env'', ''env-a'', ''false''] ex_world)) = None
   \<and> fst (mainRun alone (ex_child 1) [''--env'', ''env-a'', ''false''] ex_occupied) = Inr 1
   \<and> mainRun alone (ex_child 1) [''--env'', ''nope'', ''false''] ex_world =
       (Inl (EnvNotFound ''nope''), ex_world)"
proof -
  have n: "''env-a'' \<noteq> []" "''nope'' \<noteq> []" "[''false''] \<noteq> []" "hd [''false''] \<noteq> ''--''"
    by simp_all
  obtain w1 where e1: "enterEnv alone ''env-a'' ex_world = (Inr True, w1)"
  proof -
    have "fst (enterEnv alone ''env-a'' ex_world) = Inr True" by code_simp
    then show ?thesis using that by (cases "enterEnv alone ''env-a'' ex_world") auto
  qed
  obtain w2 where r1: "runCommand (ex_child 1) ''env-a'' [''false''] w1 = (1, w2)"
    by (simp add: runCommand_def ex_child_def)
  have x1: "fst (exitEnv alone True w2) = Inr ()"
    "readState (snd (exitEnv alone True w2)) = None"
  proof -
    have "w1 = snd (enterEnv alone ''env-a'' ex_world)" using e1 by simp
    moreover have "w2 = snd (runCommand (ex_child 1) ''env-a'' [''false''] w1)"
      using r1 by simp
    moreover have "fst (exitEnv alone True (snd (runCommand (ex_child 1) ''env-a'' [''false'']
        (snd (enterEnv alone ''env-a'' ex_world))))) = Inr ()" by code_simp
    moreover have "readState (snd (exitEnv alone True (snd (runCommand (ex_child 1) ''env-a''
        [''false''] (snd (enterEnv alone ''env-a'' ex_world)))))) = None" by code_simp
    ultimately show "fst (exitEnv alone True w2) = Inr ()"
      "readState (snd (exitEnv alone True w2)) = None" by simp_all
  qed
  obtain w3 where e2: "enterEnv alone ''env-a'' ex_occupied = (Inr False, w3)"
  proof -
    have "fst (enterEnv alone ''env-a'' ex_occupied) = Inr False" by code_simp
    then show ?thesis using that by (cases "enterEnv alone ''env-a'' ex_occupied") auto
  qed
  obtain w4 where r2: "runCommand (ex_child 1) ''env-a'' [''false''] w3 = (1, w4)"
    by (simp add: runCommand_def ex_child_def)
  have e3: "enterEnv alone ''nope'' ex_world = (Inl (EnvNotFound ''nope''), ex_world)"
    by code_simp
  have A: "fst (mainRun alone (ex_child 1) [''--env'', ''env-a'', ''false''] ex_world) = Inr 1
     \<and> readState (snd (mainRun alone (ex_child 1) [''--env'', ''env-a'', ''false''] ex_world)) = None"
    using mainRun_cleanup [OF n(1) n(3) n(4), of alone ex_world "ex_child 1"] e1 r1 x1
    by auto
  have B: "fst (mainRun alone (ex_child 1) [''--env'', ''env-a'', ''false''] ex_occupied) = Inr 1"
    using mainRun_cleanup [OF n(1) n(3) n(4), of alone ex_occupied "ex_child 1"] e2 r2
    by auto
  have C: "mainRun alone (ex_child 1) [''--env'', ''nope'', ''false''] ex_world =
       (Inl (EnvNotFound ''nope''), ex_world)"
    using mainRun_cleanup [OF n(2) n(3) n(4), of alone ex_world "ex_child 1"] e3
    by auto
  from A B C show ?thesis by blast
qed


text \<open>
  Claim C5 as stated fails: the exit of the cleanup phase is not unconditional. With
  \<^verbatim>\<open>env-a\<close> occupying the tree, \<^verbatim>\<open>run --env env-a true\<close> runs the child and issues no
  other command; the tree is still occupied afterwards, where a forced exit would have
  freed it.
\<close>

theorem mainRun_skips_exit_counterexample:
  "fst (mainRun alone (ex_child 0) [''--env'', ''env-a'', ''true''] ex_occupied) = Inr 0
   \<and> readState ex_occupied =
       Some \<lparr>activeEnv = ''env-a'', hostEnv = ''default'', timestamp = 1000\<rparr>
   \<and> readState (snd (mainRun alone (ex_child 0) [''--env'', ''env-a'', ''true''] ex_occupied)) =
       Some \<lparr>activeEnv = ''env-a'', hostEnv = ''default'', timestamp = 1000\<rparr>
   \<and> trace (snd (mainRun alone (ex_child 0) [''--env'', ''env-a'', ''true''] ex_occupied)) =
       trace ex_occupied @ [Spawn ''env-a'' (escapeShellArg ''true'')]
   \<and> readState (snd (exitEnv alone True
        (snd (runCommand (ex_child 0) ''env-a'' [''true''] ex_occupied)))) = None
   \<and> snd (mainRun alone (ex_child 0) [''--env'', ''env-a'', ''true''] ex_occupied) \<noteq>
       snd (exitEnv alone True (snd (runCommand (ex_child 0) ''env-a'' [''true''] ex_occupied)))"
  by code_simp


section \<open>Mutual exclusion\<close>

text \<open>
  Claim C2 demands that in every reachable state at most one process is in the middle
  of a swap. The code breaks it. When \<^verbatim>\<open>enter y\<close> wakes from the sleep of its busy branch,
  the \<^verbatim>\<open>finally\<close> block releases the lock a second time; by then the lock belongs to
  \<^verbatim>\<open>enter z\<close>, which is in the middle of its swap (step 13 of the schedule: the marker
  is that of process 1; step 15: the marker is gone). \<^verbatim>\<open>enter y\<close> then takes the lock,
  reads no state record and starts its own swap: the log shows both snapshots, and both
  processes are in their swap at once. Run to the end, both calls return that they have
  swapped in, \<^verbatim>\<open>z\<close> as well as \<^verbatim>\<open>y\<close>, and the state record names \<^verbatim>\<open>y\<close> alone.
\<close>

theorem enter_mutual_exclusion_violated:
  "mutual_exclusion ex_system
   \<and> \<not> mutual_exclusion (fold step ex_schedule ex_system)
   \<and> map snd (procs (fold step ex_schedule ex_system)) = [AtDone Swapped, AtClean, AtClean]
   \<and> sys_log (fold step ex_schedule ex_system) =
       [(0, Snapshot), (0, Reset), (0, Restore), (1, Snapshot), (2, Snapshot)]
   \<and> sys_lock (fold step (take 13 ex_schedule) ex_system) = Some 1
   \<and> sys_lock (fold step (take 15 ex_schedule) ex_system) = None
   \<and> map snd (procs (fold step (ex_schedule @ [1, 1, 1, 1, 2, 2, 2, 2]) ex_system)) =
       [AtDone Swapped, AtDone Swapped, AtDone Swapped]
   \<and> sys_state (fold step (ex_schedule @ [1, 1, 1, 1, 2, 2, 2, 2]) ex_system) = Some ''y''"
  by code_simp


text \<open>
  The second release shows in the sequential model as well. \<^verbatim>\<open>enter env-b\<close> finds the
  tree busy, releases the lock and sleeps; when it wakes the marker is that of process
  99. The \<^verbatim>\<open>finally\<close> block deletes it, and the loop takes the lock and swaps in without
  a further wait.
\<close>

lemma enterEnv_deletes_foreign_lock:
  "readState ex_two = Some \<lparr>activeEnv = ''env-a'', hostEnv = ''default'', timestamp = 1000\<rparr>
   \<and> lock_file ex_two = None
   \<and> lock_file (sleep ex_intruder 1000
         (releaseLock (snd (acquireLock ex_intruder 30000 (ensureCcenvDirs ex_two))))) =
       Some (Json \<lparr>lock_pid = 99, lock_hostname = ''host'', lock_timestamp = 2000\<rparr>)
   \<and> fst (enterEnv ex_intruder ''env-b'' ex_two) = Inr True
   \<and> drop (length (trace ex_two)) (trace (snd (enterEnv ex_intruder ''env-b'' ex_two))) =
       [LsFilesOthers, DiffCached ''default'', DiffTree ''default'', RevParseHead,
        RevParseAbbrevRef, ResetHard, Clean, Checkout ''main'']
   \<and> clock (snd (enterEnv ex_intruder ''env-b'' ex_two)) = 2000"
  by code_simp


section \<open>Round trip\<close>

subsection \<open>Tables, patches and archives\<close>

lemma map_of_filter_key:
  "map_of (filter (\<lambda>(p, c). P p) xs) p = (if P p then map_of xs p else None)"
  by (induction xs) auto

lemma map_of_eq_None_iff': "map_of xs p = None \<longleftrightarrow> p \<notin> set (map fst xs)"
  by (simp add: map_of_eq_None_iff)

lemma fold_write_change_other:
  "p \<notin> set (map fst pt) \<Longrightarrow> map_of (fold write_change pt f) p = map_of f p"
proof (induction pt arbitrary: f)
  case Nil
  then show ?case by simp
next
  case (Cons ch pt)
  obtain q old new where ch: "ch = (q, old, new)" by (cases ch)
  have "map_of (fold write_change pt (write_change ch f)) p = map_of (write_change ch f) p"
    using Cons by simp
  also have "\<dots> = map_of f p"
    using Cons.prems ch by (simp add: write_change_def split: option.split)
  finally show ?case by simp
qed

lemma map_of_write_change:
  "map_of (write_change (q, old, new) f) p = (if p = q then new else map_of f p)"
  by (simp add: write_change_def split: option.split)

lemma fold_write_change_distinct:
  "distinct (map fst pt) \<Longrightarrow>
     map_of (fold write_change pt f) p =
       (case map_of pt p of None \<Rightarrow> map_of f p | Some (old, new) \<Rightarrow> new)"
proof (induction pt arbitrary: f)
  case Nil
  then show ?case by simp
next
  case (Cons ch pt)
  obtain q old new where ch: "ch = (q, old, new)" by (cases ch)
  have f: "fold write_change (ch # pt) f = fold write_change pt (write_change (q, old, new) f)"
    by (simp add: ch)
  show ?case
  proof (cases "p = q")
    case True
    then have "p \<notin> set (map fst pt)" using Cons.prems ch by auto
    then have "map_of (fold write_change pt (write_change (q, old, new) f)) p =
        map_of (write_change (q, old, new) f) p"
      by (rule fold_write_change_other)
    then show ?thesis
      unfolding f using True ch by (simp add: map_of_write_change)
  next
    case False
    have "distinct (map fst pt)" using Cons.prems by simp
    then have "map_of (fold write_change pt (write_change (q, old, new) f)) p =
       (case map_of pt p of None \<Rightarrow> map_of (write_change (q, old, new) f) p
        | Some (old, new) \<Rightarrow> new)"
      by (rule Cons.IH)
    then show ?thesis
      unfolding f using False ch by (auto simp: map_of_write_change split: option.split)
  qed
qed

lemma distinct_diff_between: "distinct (map fst (diff_between ps a b))"
  by (simp add: diff_between_def comp_def distinct_map_filter)

lemma map_of_diff_between:
  "map_of (diff_between ps a b) p =
     (if p \<in> set ps \<and> map_of a p \<noteq> map_of b p then Some (map_of a p, map_of b p) else None)"
proof -
  have "map_of (map (\<lambda>p. (p, g p)) xs) p = (if p \<in> set xs then Some (g p) else None)"
    for g :: "string \<Rightarrow> content option \<times> content option" and xs
    by (induction xs) auto
  then show ?thesis by (simp add: diff_between_def)
qed

lemma applicable_iff:
  "applicable pt f \<longleftrightarrow> (\<forall>(p, old, new) \<in> set pt. map_of f p = old)"
  by (simp add: applicable_def list_all_iff)

lemma applicable_diff_between:
  "applicable (diff_between ps a b) f \<longleftrightarrow>
     (\<forall>p \<in> set ps. map_of a p \<noteq> map_of b p \<longrightarrow> map_of f p = map_of a p)"
  by (auto simp: applicable_iff diff_between_def)

lemma apply_diff_between:
  assumes "\<forall>p \<in> set ps. map_of a p \<noteq> map_of b p \<longrightarrow> map_of f p = map_of a p"
  shows "\<exists>f'. apply_patch (diff_between ps a b) f = Some f'
     \<and> (\<forall>p. map_of f' p =
           (if p \<in> set ps \<and> map_of a p \<noteq> map_of b p then map_of b p else map_of f p))"
  using assms
  by (simp add: apply_patch_def applicable_diff_between fold_write_change_distinct
      distinct_diff_between map_of_diff_between)

lemma fold_update_other:
  "p \<notin> set (map fst ar) \<Longrightarrow> map_of (fold (\<lambda>(q, c). AList.update q c) ar f) p = map_of f p"
  by (induction ar arbitrary: f) auto

lemma fold_update_distinct:
  "distinct (map fst ar) \<Longrightarrow>
     map_of (fold (\<lambda>(q, c). AList.update q c) ar f) p =
       (case map_of ar p of None \<Rightarrow> map_of f p | Some c \<Rightarrow> Some c)"
proof (induction ar arbitrary: f)
  case Nil
  then show ?case by simp
next
  case (Cons e ar)
  obtain q c where e: "e = (q, c)" by (cases e)
  show ?case
  proof (cases "p = q")
    case True
    then have "p \<notin> set (map fst ar)" using Cons.prems e by auto
    then show ?thesis using True e by (simp add: fold_update_other)
  next
    case False
    then show ?thesis using Cons e by (simp split: option.split)
  qed
qed

lemma map_filter_keys:
  "map fst (List.map_filter (\<lambda>p. map_option (Pair p) (g p)) ps) = filter (\<lambda>p. g p \<noteq> None) ps"
  by (induction ps) (auto simp: List.map_filter_simps split: option.split)

lemma map_of_tar_create:
  "map_of (tar_create ps r) p = (if p \<in> set ps then map_of (tree r) p else None)"
proof -
  have "map_of (List.map_filter (\<lambda>p. map_option (Pair p) (g p)) ps) p =
      (if p \<in> set ps then g p else None)" for g :: "string \<Rightarrow> string option"
    by (induction ps) (auto simp: List.map_filter_simps split: option.split)
  then show ?thesis by (simp add: tar_create_def)
qed

lemma distinct_tar_create: "distinct ps \<Longrightarrow> distinct (map fst (tar_create ps r))"
  by (simp add: tar_create_def map_filter_keys)

lemma distinct_untrackedFiltered: "distinct (untrackedFiltered r)"
  by (simp add: untrackedFiltered_def ls_files_others_def)

lemma in_untrackedFiltered:
  "p \<in> set (untrackedFiltered r) \<longleftrightarrow>
     map_of (tree r) p \<noteq> None \<and> map_of (index r) p = None \<and> p \<notin> set (ignored r)
     \<and> p \<noteq> ''.ccenv'' \<and> \<not> startsWith p ''.ccenv/''"
  by (auto simp: untrackedFiltered_def ls_files_others_def map_of_eq_None_iff)

lemma components_hd:
  "CHR ''/'' \<notin> set xs \<Longrightarrow> components (xs @ CHR ''/'' # rest) = xs # components rest"
  by (induction xs) auto

lemma components_no_slash: "CHR ''/'' \<notin> set xs \<Longrightarrow> components xs = [xs]"
  by (induction xs) auto

lemma filtered_excluded:
  "p = ''.ccenv'' \<or> startsWith p ''.ccenv/'' \<Longrightarrow> clean_excluded p"
proof (erule disjE)
  assume "p = ''.ccenv''"
  then show ?thesis by (simp add: clean_excluded_def)
next
  assume a: "startsWith p ''.ccenv/''"
  define rest where "rest = drop (length ''.ccenv/'') p"
  have t: "take (length ''.ccenv/'') p = ''.ccenv/''" using a unfolding startsWith_def .
  have "p = ''.ccenv/'' @ rest"
    unfolding rest_def using t by (metis append_take_drop_id)
  then have p: "p = ''.ccenv'' @ CHR ''/'' # rest" by simp
  have "components (''.ccenv'' @ CHR ''/'' # rest) = ''.ccenv'' # components rest"
    by (rule components_hd) simp
  then show ?thesis by (subst p) (simp add: clean_excluded_def)
qed

subsection \<open>Reset, checkout and the steps of a restore\<close>

lemma diff_between_self [simp]: "diff_between ps a a = []"
  by (simp add: diff_between_def)

lemma git_reset_hard_head [simp]:
  "commits (git_reset_hard r) = commits r" "branches (git_reset_hard r) = branches r"
  "head_branch (git_reset_hard r) = head_branch r" "head_commit (git_reset_hard r) = head_commit r"
  "ignored (git_reset_hard r) = ignored r" "index (git_reset_hard r) = head_files r"
  "head_files (git_reset_hard r) = head_files r"
  by (simp_all add: git_reset_hard_def head_files_def)

lemma git_clean_head [simp]:
  "commits (git_clean r) = commits r" "branches (git_clean r) = branches r"
  "head_branch (git_clean r) = head_branch r" "head_commit (git_clean r) = head_commit r"
  "ignored (git_clean r) = ignored r" "index (git_clean r) = index r"
  "head_files (git_clean r) = head_files r"
  by (simp_all add: git_clean_def head_files_def)

lemma head_resolves_clean [simp]:
  "head_resolves (git_clean (git_reset_hard r)) = head_resolves r"
  by (simp add: head_resolves_def split: option.split)

lemma map_of_tree_reset:
  "map_of (tree (git_reset_hard r)) p =
     (case map_of (head_files r) p of
        Some c \<Rightarrow> Some c
      | None \<Rightarrow> (if map_of (index r) p = None then map_of (tree r) p else None))"
  by (simp add: git_reset_hard_def map_add_def map_of_filter_key split: option.split)

lemma map_of_tree_clean:
  "map_of (tree (git_clean r)) p =
     (if map_of (index r) p \<noteq> None \<or> p \<in> set (ignored r) \<or> clean_excluded p
      then map_of (tree r) p else None)"
  by (simp add: git_clean_def map_of_filter_key)

lemma git_checkout_same:
  assumes "head_resolves r"
  shows "head_branch r = Some b \<Longrightarrow> git_checkout b r = Some r"
    and "head_branch r = None \<Longrightarrow> git_checkout (head_commit r) r = Some r"
proof -
  obtain f where f: "map_of (commits r) (head_commit r) = Some f"
    using assms by (auto simp: head_resolves_def)
  then have h: "head_files r = f" by (simp add: head_files_def)
  show "head_branch r = Some b \<Longrightarrow> git_checkout b r = Some r"
    using assms f h
    by (simp add: head_resolves_def git_checkout_def resolve_target_def applicable_def)
  show "head_branch r = None \<Longrightarrow> git_checkout (head_commit r) r = Some r"
    using assms f h
    by (simp add: head_resolves_def git_checkout_def resolve_target_def applicable_def)
qed

lemma restorePosition_same:
  assumes "head_resolves (repo w)"
    and "info_json (slot_of w d) = Some (Json \<lparr>headHash = head_commit (repo w),
           branch = rev_parse_abbrev_ref (repo w), info_timestamp = t\<rparr>)"
  shows "repo (restorePosition d w) = repo w"
proof (cases "head_branch (repo w)")
  case None
  then have b: "rev_parse_abbrev_ref (repo w) = ''HEAD''" by (simp add: rev_parse_abbrev_ref_def)
  show ?thesis
    using assms(2) b git_checkout_same(2) [OF assms(1) None]
    by (simp add: restorePosition_def shell_def Let_def)
next
  case (Some b)
  then have b: "rev_parse_abbrev_ref (repo w) = b" by (simp add: rev_parse_abbrev_ref_def)
  have nb: "b \<noteq> []" "b \<noteq> ''HEAD''" using assms(1) Some by (auto simp: head_resolves_def)
  show ?thesis
    using assms(2) b nb git_checkout_same(1) [OF assms(1) Some]
    by (simp add: restorePosition_def shell_def Let_def)
qed

lemma diff_between_Nil_iff:
  "diff_between ps a b = [] \<longleftrightarrow> (\<forall>p \<in> set ps. map_of a p = map_of b p)"
  by (auto simp: diff_between_def filter_empty_conv)

lemma patch_step:
  assumes "\<forall>p \<in> set ps. map_of a p \<noteq> map_of b p \<longrightarrow> map_of f p = map_of a p"
  shows "\<exists>f'. (if diff_between ps a b \<noteq> [] then apply_patch (diff_between ps a b) f
               else Some f) = Some f'
     \<and> (\<forall>p. map_of f' p =
           (if p \<in> set ps \<and> map_of a p \<noteq> map_of b p then map_of b p else map_of f p))"
proof (cases "diff_between ps a b = []")
  case True
  then show ?thesis by (auto simp: diff_between_Nil_iff)
next
  case False
  then show ?thesis using apply_diff_between [OF assms] by simp
qed


lemma slot_of_dumpUntracked_same:
  "untracked_tar (slot_of (dumpUntracked d w) d) =
     (if untrackedFiltered (repo w) \<noteq> []
      then Some (tar_create (untrackedFiltered (repo w)) (repo w)) else None)"
  by (simp add: dumpUntracked_def Let_def)

lemma slot_of_dumpEnv_same:
  "info_json (slot_of (dumpEnv d w) d) =
     Some (Json \<lparr>headHash = head_commit (repo w), branch = rev_parse_abbrev_ref (repo w),
                  info_timestamp = clock w\<rparr>)"
  "staged_patch (slot_of (dumpEnv d w) d) = Some (diff_cached (repo w))"
  "unstaged_patch (slot_of (dumpEnv d w) d) = Some (diff_tree (repo w))"
  "untracked_tar (slot_of (dumpEnv d w) d) =
     (if untrackedFiltered (repo w) \<noteq> []
      then Some (tar_create (untrackedFiltered (repo w)) (repo w)) else None)"
  by (simp_all add: dumpEnv_def slot_of_dumpUntracked_same rev_parse_head_def)

lemma restoreUntracked_repo:
  "repo (restoreUntracked d w) =
     (case untracked_tar (slot_of w d) of None \<Rightarrow> repo w | Some ar \<Rightarrow> tar_extract ar (repo w))"
  by (simp add: restoreUntracked_def split: option.split)

lemma tar_extract_fields [simp]:
  "index (tar_extract ar r) = index r" "head_branch (tar_extract ar r) = head_branch r"
  "head_commit (tar_extract ar r) = head_commit r" "commits (tar_extract ar r) = commits r"
  "branches (tar_extract ar r) = branches r" "ignored (tar_extract ar r) = ignored r"
  by (simp_all add: tar_extract_def)

lemma restoreStaged_ok:
  assumes "staged_patch (slot_of w d) = Some pt"
    and "(if pt \<noteq> [] then apply_patch pt (index (repo w)) else Some (index (repo w))) = Some i'"
    and "(if pt \<noteq> [] then apply_patch pt (tree (repo w)) else Some (tree (repo w))) = Some t'"
  shows "fst (restoreStaged d w) = Inr ()
    \<and> repo (snd (restoreStaged d w)) = (repo w)\<lparr>index := i', tree := t'\<rparr>"
proof (cases "pt = []")
  case True
  then show ?thesis
    using assms by (simp add: restoreStaged_def fileNotEmpty_def)
next
  case False
  then show ?thesis
    using assms
    by (simp add: restoreStaged_def fileNotEmpty_def patch_of_def shell_def Let_def
        git_apply_cached_def git_apply_def)
qed

lemma restoreUnstaged_ok:
  assumes "unstaged_patch (slot_of w d) = Some pt"
    and "(if pt \<noteq> [] then apply_patch pt (tree (repo w)) else Some (tree (repo w))) = Some t'"
  shows "fst (restoreUnstaged d w) = Inr ()
    \<and> repo (snd (restoreUnstaged d w)) = (repo w)\<lparr>tree := t'\<rparr>"
proof (cases "pt = []")
  case True
  then show ?thesis
    using assms by (simp add: restoreUnstaged_def fileNotEmpty_def)
next
  case False
  then show ?thesis
    using assms
    by (simp add: restoreUnstaged_def fileNotEmpty_def patch_of_def shell_def Let_def
        git_apply_def)
qed

subsection \<open>Where the round trip holds\<close>

text \<open>
  Snapshot, reset and restore of the same slot give back the index and the working tree,
  file by file, and leave HEAD where it was, for every world in which HEAD is in order
  and no file of the working tree that is missing from the index sits on a path of
  HEAD.
\<close>

lemma roundtrip_restores:
  assumes hr: "head_resolves (repo w)"
    and nc: "\<forall>p. map_of (index (repo w)) p = None \<and> map_of (tree (repo w)) p \<noteq> None
               \<longrightarrow> map_of (head_files (repo w)) p = None"
  shows "fst (restoreEnv d False (cleanWorkspace (dumpEnv d w))) = Inr ()
    \<and> map_of (index (repo (snd (restoreEnv d False (cleanWorkspace (dumpEnv d w))))))
        = map_of (index (repo w))
    \<and> map_of (tree (repo (snd (restoreEnv d False (cleanWorkspace (dumpEnv d w))))))
        = map_of (tree (repo w))
    \<and> head_branch (repo (snd (restoreEnv d False (cleanWorkspace (dumpEnv d w)))))
        = head_branch (repo w)
    \<and> head_commit (repo (snd (restoreEnv d False (cleanWorkspace (dumpEnv d w)))))
        = head_commit (repo w)"
proof -
  define r where "r = repo w"
  define H where "H = map_of (head_files r)"
  define I where "I = map_of (index r)"
  define T where "T = map_of (tree r)"
  define UF where "UF = untrackedFiltered r"
  define w2 where "w2 = cleanWorkspace (dumpEnv d w)"
  define r2 where "r2 = git_clean (git_reset_hard r)"
  define w3 where "w3 = restorePosition d w2"
  define w4 where "w4 = restoreUntracked d w3"
  define w5 where "w5 = snd (restoreStaged d w4)"
  have nc': "I p = None \<Longrightarrow> T p \<noteq> None \<Longrightarrow> H p = None" for p
    using nc by (simp add: I_def T_def H_def r_def)
  \<comment> \<open>the slot after the snapshot\<close>
  have s2: "info_json (slot_of w2 d) =
      Some (Json \<lparr>headHash = head_commit r, branch = rev_parse_abbrev_ref r,
                   info_timestamp = clock w\<rparr>)"
    "staged_patch (slot_of w2 d) = Some (diff_cached r)"
    "unstaged_patch (slot_of w2 d) = Some (diff_tree r)"
    "untracked_tar (slot_of w2 d) = (if UF \<noteq> [] then Some (tar_create UF r) else None)"
    by (simp_all add: w2_def r_def UF_def slot_of_dumpEnv_same)
  have rw2: "repo w2 = r2" by (simp add: w2_def r2_def r_def)
  \<comment> \<open>the tree after reset and clean\<close>
  have i2: "index r2 = head_files r" by (simp add: r2_def)
  have t2: "map_of (tree r2) p =
      (case H p of Some c \<Rightarrow> Some c
       | None \<Rightarrow> (if I p = None \<and> (p \<in> set (ignored r) \<or> clean_excluded p)
                   then T p else None))" for p
    by (auto simp: r2_def map_of_tree_clean map_of_tree_reset H_def I_def T_def
        split: option.split)
  \<comment> \<open>the position step changes nothing\<close>
  have "head_resolves (repo w2)" using hr by (simp add: rw2 r2_def r_def)
  moreover have "info_json (slot_of w2 d) =
      Some (Json \<lparr>headHash = head_commit (repo w2), branch = rev_parse_abbrev_ref (repo w2),
                   info_timestamp = clock w\<rparr>)"
    by (simp add: s2 rw2 r2_def rev_parse_abbrev_ref_def)
  ultimately have rw3: "repo w3 = r2"
    unfolding w3_def using restorePosition_same [of w2 d "clock w"] rw2 by simp
  have c3: "unchanged_control w2 w3"
    unfolding w3_def by (rule unchanged_control_restorePosition)
  have s3: "slot_of w3 d = slot_of w2 d" by (rule unchanged_control_slot_of [OF c3])
  \<comment> \<open>the archive\<close>
  have uf: "p \<in> set UF \<longleftrightarrow> T p \<noteq> None \<and> I p = None \<and> p \<notin> set (ignored r)
      \<and> p \<noteq> ''.ccenv'' \<and> \<not> startsWith p ''.ccenv/''" for p
    by (simp add: UF_def in_untrackedFiltered T_def I_def)
  have rw4: "repo w4 = (if UF \<noteq> [] then tar_extract (tar_create UF r) r2 else r2)"
    by (simp add: w4_def restoreUntracked_repo s3 s2 rw3)
  have i4: "index (repo w4) = head_files r" by (simp add: rw4 i2)
  have t4: "map_of (tree (repo w4)) p = (if p \<in> set UF then T p else map_of (tree r2) p)" for p
  proof (cases "UF = []")
    case True
    then show ?thesis by (simp add: rw4)
  next
    case False
    have "distinct (map fst (tar_create UF r))"
      by (simp add: distinct_tar_create UF_def distinct_untrackedFiltered)
    then show ?thesis
      using False uf [of p]
      by (auto simp: rw4 tar_extract_def fold_update_distinct map_of_tar_create T_def
          split: option.split)
  qed
  have t4': "map_of (tree (repo w4)) p =
      (case H p of Some c \<Rightarrow> Some c | None \<Rightarrow> (if I p = None then T p else None))" for p
  proof (cases "p \<in> set UF")
    case True
    then have "T p \<noteq> None" "I p = None" using uf by auto
    then have "H p = None" by (rule nc'[rotated])
    then show ?thesis using True \<open>I p = None\<close> by (simp add: t4)
  next
    case False
    show ?thesis
    proof (cases "H p")
      case (Some c)
      then show ?thesis using False by (simp add: t4 t2)
    next
      case None
      show ?thesis
      proof (cases "I p = None \<and> T p \<noteq> None")
        case True
        then have "p \<in> set (ignored r) \<or> clean_excluded p"
          using False uf [of p] filtered_excluded [of p] by blast
        then show ?thesis using False None True by (simp add: t4 t2)
      next
        case False2: False
        then show ?thesis using False None by (auto simp: t4 t2)
      qed
    qed
  qed
  have c4: "unchanged_control w3 w4"
    unfolding w4_def by (rule unchanged_control_restoreUntracked)
  have s4: "slot_of w4 d = slot_of w2 d"
    using unchanged_control_slot_of [OF c4] s3 by simp
  \<comment> \<open>the staged patch, on the index and on the tree\<close>
  let ?ps = "map fst (head_files r) @ map fst (index r)"
  have dc: "diff_cached r = diff_between ?ps (head_files r) (index r)"
    by (simp add: diff_cached_def)
  have inps: "p \<in> set ?ps \<longleftrightarrow> H p \<noteq> None \<or> I p \<noteq> None" for p
    by (auto simp: H_def I_def map_of_eq_None_iff)
  have "\<forall>p \<in> set ?ps. map_of (head_files r) p \<noteq> map_of (index r) p \<longrightarrow>
      map_of (index (repo w4)) p = map_of (head_files r) p"
    by (simp add: i4)
  from patch_step [OF this] obtain i' where
    i': "(if diff_cached r \<noteq> [] then apply_patch (diff_cached r) (index (repo w4))
          else Some (index (repo w4))) = Some i'"
    and mi': "\<And>p. map_of i' p = (if p \<in> set ?ps \<and> H p \<noteq> I p then I p else H p)"
    unfolding dc by (auto simp: H_def I_def i4)
  have mi: "map_of i' p = I p" for p
    using mi' [of p] inps [of p] by (cases "H p"; cases "I p"; simp)
  have "\<forall>p \<in> set ?ps. map_of (head_files r) p \<noteq> map_of (index r) p \<longrightarrow>
      map_of (tree (repo w4)) p = map_of (head_files r) p"
  proof (intro ballI impI)
    fix p assume "p \<in> set ?ps" and d: "map_of (head_files r) p \<noteq> map_of (index r) p"
    then show "map_of (tree (repo w4)) p = map_of (head_files r) p"
      using t4' [of p] by (cases "H p") (auto simp: H_def I_def)
  qed
  from patch_step [OF this] obtain t' where
    t': "(if diff_cached r \<noteq> [] then apply_patch (diff_cached r) (tree (repo w4))
          else Some (tree (repo w4))) = Some t'"
    and mt': "\<And>p. map_of t' p =
        (if p \<in> set ?ps \<and> H p \<noteq> I p then I p else map_of (tree (repo w4)) p)"
    unfolding dc by (auto simp: H_def I_def)
  have st: "fst (restoreStaged d w4) = Inr ()"
    "repo w5 = (repo w4)\<lparr>index := i', tree := t'\<rparr>"
    using restoreStaged_ok [of w4 d "diff_cached r" i' t'] i' t' s4 s2
    by (simp_all add: w5_def)
  have c5: "unchanged_control w4 w5"
    unfolding w5_def by (rule unchanged_control_restoreStaged)
  have s5: "slot_of w5 d = slot_of w2 d"
    using unchanged_control_slot_of [OF c5] s4 by simp
  have mt: "map_of t' p = (if I p \<noteq> None then I p else T p)" for p
  proof (cases "I p")
    case None
    show ?thesis
    proof (cases "H p")
      case None2: None
      then show ?thesis using None mt' [of p] t4' [of p] by simp
    next
      case (Some c)
      then have "T p = None" using None nc' [of p] by (cases "T p") auto
      then show ?thesis using None Some mt' [of p] inps [of p] by simp
    qed
  next
    case (Some c)
    then show ?thesis
      using mt' [of p] t4' [of p] inps [of p] by (cases "H p") auto
  qed
  \<comment> \<open>the unstaged patch\<close>
  let ?qs = "map fst (index r)"
  have dt: "diff_tree r = diff_between ?qs (index r) (tree r)"
    by (simp add: diff_tree_def)
  have inqs: "p \<in> set ?qs \<longleftrightarrow> I p \<noteq> None" for p
    by (auto simp: I_def map_of_eq_None_iff)
  have "\<forall>p \<in> set ?qs. map_of (index r) p \<noteq> map_of (tree r) p \<longrightarrow>
      map_of (tree (repo w5)) p = map_of (index r) p"
    using mt inqs by (auto simp: st I_def)
  from patch_step [OF this] obtain t'' where
    t'': "(if diff_tree r \<noteq> [] then apply_patch (diff_tree r) (tree (repo w5))
          else Some (tree (repo w5))) = Some t''"
    and mt'': "\<And>p. map_of t'' p =
        (if p \<in> set ?qs \<and> I p \<noteq> T p then T p else map_of (tree (repo w5)) p)"
    unfolding dt by (auto simp: I_def T_def)
  have un: "fst (restoreUnstaged d w5) = Inr ()"
    "repo (snd (restoreUnstaged d w5)) = (repo w5)\<lparr>tree := t''\<rparr>"
    using restoreUnstaged_ok [of w5 d "diff_tree r" t''] t'' s5 s2 by simp_all
  have mtt: "map_of t'' p = T p" for p
    using mt'' [of p] mt [of p] inqs [of p] by (auto simp: st)
  \<comment> \<open>the whole restore\<close>
  have re: "restoreEnv d False w2 = restoreUnstaged d w5"
    using st(1)
    by (cases "restoreStaged d w4")
       (simp add: restoreEnv_def Let_def w5_def w4_def w3_def)
  have hb: "head_branch (repo w4) = head_branch r" "head_commit (repo w4) = head_commit r"
    by (simp_all add: rw4 r2_def)
  show ?thesis
    unfolding w2_def [symmetric] re
    using un mi mtt hb
    by (auto simp: st I_def T_def r_def)
qed


lemma roundtrip_restores_example:
  "fst (restoreEnv ''default'' False (cleanWorkspace (dumpEnv ''default'' ex_world))) = Inr ()
   \<and> map_of (index (repo (snd (restoreEnv ''default'' False
        (cleanWorkspace (dumpEnv ''default'' ex_world)))))) = map_of (index (repo ex_world))
   \<and> map_of (tree (repo (snd (restoreEnv ''default'' False
        (cleanWorkspace (dumpEnv ''default'' ex_world)))))) = map_of (tree (repo ex_world))"
proof -
  have a: "head_resolves (repo ex_world)"
    by (simp add: head_resolves_def ex_world_def ex_repo_def)
  have b: "\<forall>p. map_of (index (repo ex_world)) p = None \<and> map_of (tree (repo ex_world)) p \<noteq> None
             \<longrightarrow> map_of (head_files (repo ex_world)) p = None"
    by (simp add: ex_world_def ex_repo_def head_files_def)
  show ?thesis
    using roundtrip_restores [OF a b, of "''default''"] by simp
qed

subsection \<open>Where it fails\<close>

text \<open>
  Claim C1 says that snapshot, reset and restore of the same slot give back every tree
  state. The code loses a file when a path is staged as deleted and still present in the
  working tree. The snapshot stores the staged deletion of \<^verbatim>\<open>file.txt\<close> and the file
  itself in the archive of untracked files. The restore extracts the archive first and
  then applies the staged patch to the index and to the tree: the second application
  deletes the file just extracted. The restore reports success, and the untracked file
  is gone. The same happens through \<^verbatim>\<open>enter\<close> followed by \<^verbatim>\<open>exit\<close>.
\<close>

theorem roundtrip_loses_untracked_file:
  "diff_cached (repo ex_rm_cached) = [(''file.txt'', Some ''base'', None)]
   \<and> diff_tree (repo ex_rm_cached) = []
   \<and> ls_files_others (repo ex_rm_cached) = [''file.txt'']
   \<and> tree (repo ex_rm_cached) = [(''file.txt'', ''base'')]
   \<and> fst (restoreEnv ''default'' False (cleanWorkspace (dumpEnv ''default'' ex_rm_cached)))
       = Inr ()
   \<and> index (repo (snd (restoreEnv ''default'' False
         (cleanWorkspace (dumpEnv ''default'' ex_rm_cached))))) = []
   \<and> tree (repo (snd (restoreEnv ''default'' False
         (cleanWorkspace (dumpEnv ''default'' ex_rm_cached))))) = []
   \<and> fst (restoreEnv ''default'' True (dumpEnv ''default'' ex_rm_cached)) = Inr ()
   \<and> tree (repo (snd (restoreEnv ''default'' True (dumpEnv ''default'' ex_rm_cached)))) = []
   \<and> fst (enterEnv alone ''env-a'' ex_rm_cached) = Inr True
   \<and> fst (exitEnv alone True (snd (enterEnv alone ''env-a'' ex_rm_cached))) = Inr ()
   \<and> tree (repo (snd (exitEnv alone True (snd (enterEnv alone ''env-a'' ex_rm_cached))))) = []"
  by code_simp

end
